theory Spec2Isabelle
  imports Complex_Main "HOL-Library.Multiset"
begin

section \<open>Numbers\<close>

text \<open>
  The arrays of \<^verbatim>\<open>ransac.py\<close> hold double-precision numbers. The recording, the
  configuration and the operators are modelled by real numbers, the values of the
  doubles. The two products of a configured fraction and a count, which decide the size
  of a subset and the threshold of the classifier, are rounded as the product of two
  doubles is; the arithmetic of the scores is exact. The special values that
  NumPy produces without raising (the median of an empty axis, a division by zero) are
  kept: a value that has passed through \<^verbatim>\<open>np.median\<close> or a division is an
  \<open>npfloat\<close>, a real number, an infinity or NaN.
\<close>

datatype npfloat = Fin real | PInf | NInf | NaN

text \<open>Comparison of two doubles: every comparison with NaN is false.\<close>

fun np_less :: "npfloat \<Rightarrow> npfloat \<Rightarrow> bool" where
  "np_less NaN _ = False"
| "np_less _ NaN = False"
| "np_less (Fin a) (Fin b) = (a < b)"
| "np_less (Fin a) PInf = True"
| "np_less (Fin a) NInf = False"
| "np_less PInf _ = False"
| "np_less NInf NInf = False"
| "np_less NInf _ = True"

text \<open>Product and sum of two doubles (zero times an infinity, and the sum of the two
  infinities, are NaN).\<close>

fun np_multiply :: "npfloat \<Rightarrow> npfloat \<Rightarrow> npfloat" where
  "np_multiply NaN _ = NaN"
| "np_multiply _ NaN = NaN"
| "np_multiply (Fin a) (Fin b) = Fin (a * b)"
| "np_multiply (Fin a) PInf = (if a = 0 then NaN else if 0 < a then PInf else NInf)"
| "np_multiply (Fin a) NInf = (if a = 0 then NaN else if 0 < a then NInf else PInf)"
| "np_multiply PInf (Fin b) = (if b = 0 then NaN else if 0 < b then PInf else NInf)"
| "np_multiply NInf (Fin b) = (if b = 0 then NaN else if 0 < b then NInf else PInf)"
| "np_multiply PInf PInf = PInf"
| "np_multiply PInf NInf = NInf"
| "np_multiply NInf PInf = NInf"
| "np_multiply NInf NInf = PInf"

fun np_add :: "npfloat \<Rightarrow> npfloat \<Rightarrow> npfloat" where
  "np_add NaN _ = NaN"
| "np_add _ NaN = NaN"
| "np_add (Fin a) (Fin b) = Fin (a + b)"
| "np_add (Fin a) PInf = PInf"
| "np_add (Fin a) NInf = NInf"
| "np_add PInf (Fin b) = PInf"
| "np_add NInf (Fin b) = NInf"
| "np_add PInf PInf = PInf"
| "np_add PInf NInf = NaN"
| "np_add NInf PInf = NaN"
| "np_add NInf NInf = NInf"

text \<open>\<^verbatim>\<open>np.sqrt\<close>: NaN on a negative number.\<close>

fun np_sqrt :: "npfloat \<Rightarrow> npfloat" where
  "np_sqrt (Fin a) = (if a < 0 then NaN else Fin (sqrt a))"
| "np_sqrt PInf = PInf"
| "np_sqrt NInf = NaN"
| "np_sqrt NaN = NaN"

text \<open>
  Division of two doubles, as NumPy does it on arrays: nothing is raised, \<open>0 / 0\<close> is
  NaN and \<open>x / 0\<close> is an infinity with the sign of \<open>x\<close> (the zero divisors of this
  program are products of square roots, so they are not negative zeros).
\<close>

fun np_divide :: "npfloat \<Rightarrow> npfloat \<Rightarrow> npfloat" where
  "np_divide NaN _ = NaN"
| "np_divide _ NaN = NaN"
| "np_divide (Fin a) (Fin b) =
     (if b = 0 then (if a = 0 then NaN else if 0 < a then PInf else NInf) else Fin (a / b))"
| "np_divide (Fin a) PInf = Fin 0"
| "np_divide (Fin a) NInf = Fin 0"
| "np_divide PInf (Fin b) = (if 0 \<le> b then PInf else NInf)"
| "np_divide NInf (Fin b) = (if 0 \<le> b then NInf else PInf)"
| "np_divide PInf _ = NaN"
| "np_divide NInf _ = NaN"

text \<open>\<^verbatim>\<open>np.sum\<close> of a one-dimensional array of doubles, from \<open>0.0\<close>.\<close>

definition np_sum :: "npfloat list \<Rightarrow> npfloat" where
  "np_sum xs = foldl np_add (Fin 0) xs"


text \<open>
  \<^verbatim>\<open>np.round\<close> rounds a half to the even neighbour; \<^verbatim>\<open>int\<close> then converts the
  integral double.
\<close>

definition np_round :: "real \<Rightarrow> int" where
  "np_round x =
     (let f = \<lfloor>x\<rfloor>; d = x - of_int f
      in if d < 1 / 2 then f else if 1 / 2 < d then f + 1
         else if even f then f else f + 1)"

text \<open>
  The product of two doubles is the exact product rounded to the nearest double, a tie
  to the one with an even significand. \<open>binary64\<close> rounds a real number to 53
  significant bits: the exponent of the number (not below that of the smallest normal
  double) gives the distance of the neighbouring doubles, and the number is rounded to
  a multiple of it. A product beyond the range of doubles, which no fraction of a
  count of channels or segments reaches, is not given an infinity.
\<close>

definition binary64_exponent :: "real \<Rightarrow> int" where
  "binary64_exponent x = max \<lfloor>log 2 \<bar>x\<bar>\<rfloor> (- 1022)"

definition binary64_ulp :: "real \<Rightarrow> real" where
  "binary64_ulp x = 2 powi (binary64_exponent x - 52)"

definition binary64 :: "real \<Rightarrow> real" where
  "binary64 x =
     (if x = 0 then 0
      else of_int (np_round (x / binary64_ulp x)) * binary64_ulp x)"

text \<open>
  \<^verbatim>\<open>np.median\<close> of a one-dimensional array: the middle value of the sorted array, the
  mean of the two middle values when the length is even, NaN (with a warning, nothing
  raised) when the array is empty.
\<close>

definition np_median :: "real list \<Rightarrow> npfloat" where
  "np_median xs =
     (let s = sort xs; n = length xs
      in if n = 0 then NaN
         else if n mod 2 = 1 then Fin (s ! (n div 2))
         else Fin ((s ! (n div 2 - 1) + s ! (n div 2)) / 2))"

section \<open>Errors and Python's list operations\<close>

datatype error =
    CheckDataError
  | InvalidChannelTypes "string list"
  | MixedChannelTypes
  | NotInList
  | IndexError
  | ShapeError
  | NothingToConcatenate
  | NoSections

text \<open>A loop whose body may raise: the first error ends it.\<close>

fun traverse :: "('a \<Rightarrow> error + 'b) \<Rightarrow> 'a list \<Rightarrow> error + 'b list" where
  "traverse f [] = Inr []"
| "traverse f (x # xs) =
     (case f x of
        Inl e \<Rightarrow> Inl e
      | Inr y \<Rightarrow> (case traverse f xs of Inl e \<Rightarrow> Inl e | Inr ys \<Rightarrow> Inr (y # ys)))"

text \<open>\<^verbatim>\<open>xs.index(x)\<close>: the first position of \<open>x\<close>, ValueError when there is none.\<close>

fun py_index :: "'a list \<Rightarrow> 'a \<Rightarrow> error + nat" where
  "py_index [] x = Inl NotInList"
| "py_index (y # ys) x =
     (if y = x then Inr 0
      else (case py_index ys x of Inl e \<Rightarrow> Inl e | Inr i \<Rightarrow> Inr (Suc i)))"

text \<open>\<^verbatim>\<open>xs[:n]\<close>: a negative \<open>n\<close> counts from the end.\<close>

definition py_slice_to :: "'a list \<Rightarrow> int \<Rightarrow> 'a list" where
  "py_slice_to xs n =
     (if 0 \<le> n then take (nat n) xs else take (length xs - nat (- n)) xs)"

text \<open>\<^verbatim>\<open>enumerate(xs)\<close>: the pairs (position, element).\<close>

definition enumerate_py :: "'a list \<Rightarrow> (nat \<times> 'a) list" where
  "enumerate_py xs = zip [0..<length xs] xs"

section \<open>Recordings, configuration and collaborators\<close>

text \<open>
  A channel has a name, the type that MNE's \<^verbatim>\<open>channel_type\<close> gives it and a location;
  a recording (\<^verbatim>\<open>epochs\<close>) has its channels (\<^verbatim>\<open>info['chs']\<close>), the number of time
  samples and one (sensors x samples) matrix per segment.
\<close>

record channel =
  ch_name :: string
  kind :: string
  loc :: "real list"

record epochs =
  chs :: "channel list"
  n_times :: nat
  segments :: "real list list list"

definition ch_names :: "epochs \<Rightarrow> string list" where
  "ch_names e = map ch_name (chs e)"

text \<open>
  The constructor arguments of \<^verbatim>\<open>Ransac\<close>. \<open>n_jobs\<close> is the worker count that
  \<^verbatim>\<open>check_n_jobs\<close> returns, \<open>random_state\<close> the generator that
  \<^verbatim>\<open>check_random_state\<close> returns.
\<close>

record 'g ransac =
  n_resample :: nat
  min_channels :: real
  min_corr :: real
  unbroken_time :: real
  n_jobs :: nat
  random_state :: 'g

text \<open>
  What the module imports and this repository's sources do not hold: whether
  \<^verbatim>\<open>_check_data\<close> accepts the recording, the keys of the dictionary of
  \<^verbatim>\<open>channel_indices_by_type\<close>, the generator's \<^verbatim>\<open>permutation\<close> (it returns the
  permutation and the generator's next state) and the two interpolation kernels.
\<close>

record 'g externals =
  check_data :: "epochs \<Rightarrow> bool"
  pick_types_keys :: "string list"
  permutation :: "'g \<Rightarrow> nat \<Rightarrow> nat list \<times> 'g"
  make_interpolation_matrix :: "real list list \<Rightarrow> real list list \<Rightarrow> real list list"
  fast_map_meg_channels :: "epochs \<Rightarrow> nat list \<Rightarrow> nat list \<Rightarrow> real list list"

section \<open>Channel types\<close>

text \<open>
  \<^verbatim>\<open>channel_indices_by_type\<close>: the dictionary from each type key to the indices of the
  channels of that type.
\<close>

definition channel_indices_by_type :: "string list \<Rightarrow> epochs \<Rightarrow> (string \<times> nat list) list" where
  "channel_indices_by_type keys e =
     map (\<lambda>key. (key, filter (\<lambda>k. kind (chs e ! k) = key) [0..<length (chs e)])) keys"

text \<open>\<^verbatim>\<open>key in epochs\<close>: a channel of that type is present; \<^verbatim>\<open>'meg'\<close> stands for
  magnetometers and gradiometers.\<close>

definition contains_ch_type :: "epochs \<Rightarrow> string \<Rightarrow> bool" where
  "contains_ch_type e key =
     (if key = ''meg''
      then ''mag'' \<in> set (map kind (chs e)) \<or> ''grad'' \<in> set (map kind (chs e))
      else key \<in> set (map kind (chs e)))"

text \<open>\<^verbatim>\<open>_get_channel_type\<close>; a function that falls off its end returns \<^verbatim>\<open>None\<close>.\<close>

definition get_channel_type :: "string list \<Rightarrow> epochs \<Rightarrow> error + string option" where
  "get_channel_type keys e =
     (let idx = channel_indices_by_type keys e;
          invalid_ch_types_present =
            filter (\<lambda>key. key \<notin> set [''mag'', ''grad'', ''eeg''] \<and> contains_ch_type e key)
              (map fst idx)
      in if 0 < length invalid_ch_types_present
         then Inl (InvalidChannelTypes invalid_ch_types_present)
         else if contains_ch_type e ''meg'' \<and> contains_ch_type e ''eeg''
         then Inl MixedChannelTypes
         else if contains_ch_type e ''eeg'' then Inr (Some ''eeg'')
         else if contains_ch_type e ''meg'' then Inr (Some ''meg'')
         else Inr None)"

section \<open>The subset sampler\<close>

text \<open>
  The first loop of \<^verbatim>\<open>_get_random_subsets\<close>: one permutation of the channel indices
  for each resample, from one generator, and its first \<open>n_samples\<close> entries.
\<close>

fun draw_picks :: "('g \<Rightarrow> nat \<Rightarrow> nat list \<times> 'g) \<Rightarrow> nat \<Rightarrow> int \<Rightarrow> nat \<Rightarrow> 'g \<Rightarrow> nat list list" where
  "draw_picks perm n_channels n_samples 0 rng = []"
| "draw_picks perm n_channels n_samples (Suc k) rng =
     (case perm rng n_channels of
        (p, rng') \<Rightarrow> py_slice_to p n_samples # draw_picks perm n_channels n_samples k rng')"

text \<open>
  \<^verbatim>\<open>int(np.round(self.min_channels * n_channels))\<close>: the count of channels as a double,
  the product of the two doubles, and its rounding to an integer.
\<close>

definition n_samples_of :: "'g ransac \<Rightarrow> epochs \<Rightarrow> int" where
  "n_samples_of self e =
     np_round (binary64 (min_channels self * binary64 (real (length (ch_names e)))))"

definition picks_of :: "'g externals \<Rightarrow> 'g ransac \<Rightarrow> epochs \<Rightarrow> nat list list" where
  "picks_of ext self e =
     draw_picks (permutation ext) (length (ch_names e)) (n_samples_of self e)
       (n_resample self) (random_state self)"

text \<open>
  \<^verbatim>\<open>_get_random_subsets\<close>: the picks as lists of channel names. The generator's
  permutation holds indices of channels only, so \<^verbatim>\<open>info['ch_names'][p]\<close> is in range.
\<close>

definition get_random_subsets :: "'g externals \<Rightarrow> 'g ransac \<Rightarrow> epochs \<Rightarrow> string list list" where
  "get_random_subsets ext self e =
     map (\<lambda>pick. map (\<lambda>p. ch_names e ! p) pick) (picks_of ext self e)"

section \<open>The prediction operators\<close>

text \<open>
  \<^verbatim>\<open>mapping[:, pick_from] = w\<close>: column \<open>pick_from[k]\<close> of every row takes column
  \<open>k\<close> of \<open>w\<close>, in the order of \<open>pick_from\<close>. \<open>w\<close> has one row for each row of
  \<open>mapping\<close> and one column for each index (NumPy's broadcasting of smaller shapes is
  not modelled: another shape is an error here). \<^verbatim>\<open>np.array\<close> of an empty list is
  an array of doubles, which NumPy does not accept as an index.
\<close>

definition set_columns :: "real list list \<Rightarrow> nat list \<Rightarrow> real list list \<Rightarrow> error + real list list" where
  "set_columns mapping pick_from w =
     (if pick_from = [] then Inl IndexError
      else if \<not> list_all (\<lambda>row. list_all (\<lambda>j. j < length row) pick_from) mapping
      then Inl IndexError
      else if length w = length mapping \<and> list_all (\<lambda>row. length row = length pick_from) w
      then Inr (map (\<lambda>(row, wrow). fold (\<lambda>(k, j) r. r[j := wrow ! k]) (enumerate_py pick_from) row)
                  (zip mapping w))
      else Inl ShapeError)"

text \<open>
  The index array \<open>pick_from\<close>: \<^verbatim>\<open>ch_names.index(name)\<close> for each name of the
  subset, in the order of the subset.
\<close>

definition pick_from_of :: "string list \<Rightarrow> string list \<Rightarrow> error + nat list" where
  "pick_from_of names ch_subset = traverse (py_index names) ch_subset"

text \<open>
  The body of the loop of \<^verbatim>\<open>_get_mappings\<close>: the operator of one subset. With a
  channel type that is neither \<^verbatim>\<open>'meg'\<close> nor \<^verbatim>\<open>'eeg'\<close> the operator stays zero.
\<close>

definition build_mapping ::
  "'g externals \<Rightarrow> string option \<Rightarrow> epochs \<Rightarrow> string list \<Rightarrow> error + real list list" where
  "build_mapping ext ch_type inst ch_subset =
     (let pos = map (\<lambda>ch. take 3 (loc ch)) (chs inst);
          n_channels = length (ch_names inst);
          pick_to = [0..<n_channels]
      in case pick_from_of (ch_names inst) ch_subset of
           Inl err \<Rightarrow> Inl err
         | Inr pick_from \<Rightarrow>
             (let mapping = replicate n_channels (replicate n_channels 0)
              in if ch_type = Some ''meg''
                 then set_columns mapping pick_from
                        (fast_map_meg_channels ext inst pick_from pick_to)
                 else if ch_type = Some ''eeg''
                 then (if pick_from = [] then Inl IndexError
                       else set_columns mapping pick_from
                              (make_interpolation_matrix ext
                                 (map (\<lambda>p. pos ! p) pick_from) (map (\<lambda>p. pos ! p) pick_to)))
                 else Inr mapping))"

text \<open>\<^verbatim>\<open>_get_mappings\<close>; \<^verbatim>\<open>np.concatenate\<close> raises on an empty list of arrays.\<close>

definition get_mappings ::
  "'g externals \<Rightarrow> string option \<Rightarrow> string list list \<Rightarrow> epochs \<Rightarrow> error + real list list" where
  "get_mappings ext ch_type ch_subsets inst =
     (case traverse (build_mapping ext ch_type inst) ch_subsets of
        Inl err \<Rightarrow> Inl err
      | Inr mappings \<Rightarrow>
          if mappings = [] then Inl NothingToConcatenate else Inr (concat mappings))"

section \<open>The consensus scorer\<close>

text \<open>
  Two-dimensional arrays are lists of rows. \<open>np_T\<close> is the transpose of an array with
  \<open>ncols\<close> columns, \<open>np_dot\<close> the matrix product with a right factor of \<open>ncols\<close>
  columns, \<open>ravel_F\<close> the elements of an array in Fortran order (first index fastest)
  and \<open>reshape_F3\<close> the three-dimensional array that holds a flat array in Fortran order.
\<close>

definition np_T :: "nat \<Rightarrow> 'a list list \<Rightarrow> 'a list list" where
  "np_T ncols m = map (\<lambda>j. map (\<lambda>row. row ! j) m) [0..<ncols]"

definition np_dot :: "nat \<Rightarrow> real list list \<Rightarrow> real list list \<Rightarrow> real list list" where
  "np_dot ncols a b =
     map (\<lambda>row. map (\<lambda>k. sum_list (map (\<lambda>j. row ! j * b ! j ! k) [0..<length row])) [0..<ncols]) a"

definition ravel_F :: "nat \<Rightarrow> 'a list list \<Rightarrow> 'a list" where
  "ravel_F ncols m = concat (np_T ncols m)"

definition reshape_F3 :: "nat \<Rightarrow> nat \<Rightarrow> nat \<Rightarrow> 'a list \<Rightarrow> 'a list list list" where
  "reshape_F3 d0 d1 d2 flat =
     map (\<lambda>t. map (\<lambda>c. map (\<lambda>r. flat ! (t + d0 * c + d0 * d1 * r)) [0..<d2]) [0..<d1]) [0..<d0]"

text \<open>
  The first statements of \<^verbatim>\<open>_compute_correlations\<close>: the predictions of one segment
  \<open>data\<close> (sensors x samples), reshaped to (samples, sensors, resamples). The product
  needs operators with one column for each sensor, the reshape an array of the same size.
\<close>

definition predict :: "nat \<Rightarrow> real list list \<Rightarrow> nat \<Rightarrow> real list list \<Rightarrow> error + real list list list" where
  "predict n_resamp mappings n_tim data =
     (let n_channels = length data
      in if \<not> list_all (\<lambda>row. length row = n_channels) mappings then Inl ShapeError
         else
           (let y_pred = np_dot (length mappings) (np_T n_tim data) (np_T n_channels mappings)
            in if n_tim * length mappings \<noteq> n_tim * n_channels * n_resamp then Inl ShapeError
               else Inr (reshape_F3 n_tim n_channels n_resamp (ravel_F (length mappings) y_pred))))"

definition sum_axis0 :: "nat \<Rightarrow> npfloat list list \<Rightarrow> npfloat list" where
  "sum_axis0 ncols m = map (\<lambda>c. np_sum (map (\<lambda>row. row ! c) m)) [0..<ncols]"

definition multiply2 :: "npfloat list list \<Rightarrow> npfloat list list \<Rightarrow> npfloat list list" where
  "multiply2 a b = map2 (map2 np_multiply) a b"

text \<open>\<^verbatim>\<open>_compute_correlations\<close>: one score for each sensor of the segment.\<close>

definition compute_correlations ::
  "nat \<Rightarrow> real list list \<Rightarrow> nat \<Rightarrow> real list list \<Rightarrow> error + npfloat list" where
  "compute_correlations n_resamp mappings n_tim data =
     (case predict n_resamp mappings n_tim data of
        Inl err \<Rightarrow> Inl err
      | Inr y_pred3 \<Rightarrow>
          (let n_channels = length data;
               data_T = map (map Fin) (np_T n_tim data);
               y_pred = map (map np_median) y_pred3;
               num = sum_axis0 n_channels (multiply2 data_T y_pred);
               denom = map2 np_multiply
                         (map np_sqrt (sum_axis0 n_channels (multiply2 data_T data_T)))
                         (map np_sqrt (sum_axis0 n_channels (multiply2 y_pred y_pred)))
           in Inr (map2 np_divide num denom)))"

text \<open>\<^verbatim>\<open>epochs[idx].get_data()[0]\<close>: the data of one segment.\<close>

definition getitem_epochs :: "epochs \<Rightarrow> nat \<Rightarrow> error + real list list" where
  "getitem_epochs e idx =
     (if idx < length (segments e) then Inr (segments e ! idx) else Inl IndexError)"

text \<open>
  \<^verbatim>\<open>_iterate_epochs\<close>: the loop variable \<open>idx\<close> is the position that
  \<^verbatim>\<open>enumerate\<close> counts, the element of \<open>idxs\<close> is not used. Row \<open>idx\<close> of the
  result takes the scores, which must be one for each channel name.
\<close>

definition iterate_epochs ::
  "nat \<Rightarrow> real list list \<Rightarrow> epochs \<Rightarrow> nat list \<Rightarrow> error + npfloat list list" where
  "iterate_epochs n_resamp mappings e idxs =
     (let n_channels = length (ch_names e)
      in traverse
           (\<lambda>(idx, _).
              case getitem_epochs e idx of
                Inl err \<Rightarrow> Inl err
              | Inr data \<Rightarrow>
                  (case compute_correlations n_resamp mappings (n_times e) data of
                     Inl err \<Rightarrow> Inl err
                   | Inr corr \<Rightarrow> if length corr = n_channels then Inr corr else Inl ShapeError))
           (enumerate_py idxs))"

section \<open>Partitions and the classifier\<close>

text \<open>
  \<^verbatim>\<open>np.array_split(ary, k)\<close>: \<open>k\<close> consecutive chunks, the first
  \<open>len(ary) mod k\<close> of them one element longer; no section at all is an error.
\<close>

fun split_sizes :: "'a list \<Rightarrow> nat list \<Rightarrow> 'a list list" where
  "split_sizes xs [] = []"
| "split_sizes xs (n # ns) = take n xs # split_sizes (drop n xs) ns"

definition array_split :: "'a list \<Rightarrow> nat \<Rightarrow> error + 'a list list" where
  "array_split ary k =
     (if k = 0 then Inl NoSections
      else Inr (split_sizes ary
                  (replicate (length ary mod k) (length ary div k + 1) @
                   replicate (k - length ary mod k) (length ary div k))))"

text \<open>
  The end of \<^verbatim>\<open>fit\<close>: \<open>bad_log\<close> is an array of zeros of the shape of \<open>corr_\<close> that
  takes a one where the score is below \<open>min_corr\<close>; its column sums are compared with
  the double \<open>unbroken_time * n_epochs\<close>, and \<^verbatim>\<open>np.where\<close> gives the positions that exceed it.
\<close>

definition zeros_like :: "npfloat list list \<Rightarrow> real list list" where
  "zeros_like a = map (map (\<lambda>_. 0)) a"

definition less_mask :: "npfloat list list \<Rightarrow> real \<Rightarrow> bool list list" where
  "less_mask a m = map (map (\<lambda>c. np_less c (Fin m))) a"

definition mask_assign :: "real list list \<Rightarrow> bool list list \<Rightarrow> real \<Rightarrow> real list list" where
  "mask_assign a msk v = map2 (map2 (\<lambda>x b. if b then v else x)) a msk"

definition bad_log_of :: "npfloat list list \<Rightarrow> real \<Rightarrow> real list list" where
  "bad_log_of corr m = mask_assign (zeros_like corr) (less_mask corr m) 1"

definition sum_axis0_real :: "nat \<Rightarrow> real list list \<Rightarrow> real list" where
  "sum_axis0_real ncols m = map (\<lambda>c. sum_list (map (\<lambda>row. row ! c) m)) [0..<ncols]"

definition np_where_greater :: "real list \<Rightarrow> real \<Rightarrow> nat list" where
  "np_where_greater xs thr = filter (\<lambda>j. thr < xs ! j) [0..<length xs]"

definition bad_idx_of :: "nat \<Rightarrow> npfloat list list \<Rightarrow> real \<Rightarrow> real \<Rightarrow> nat \<Rightarrow> nat list" where
  "bad_idx_of n_channels corr m u n_epochs =
     np_where_greater (sum_axis0_real n_channels (bad_log_of corr m))
       (binary64 (u * binary64 (real n_epochs)))"

definition bad_chs_of :: "string list \<Rightarrow> npfloat list list \<Rightarrow> real \<Rightarrow> real \<Rightarrow> nat \<Rightarrow> string list" where
  "bad_chs_of names corr m u n_epochs =
     (let bad_idx = bad_idx_of (length names) corr m u n_epochs
      in if 0 < length bad_idx then map (\<lambda>p. names ! p) bad_idx else [])"

section \<open>Fitting\<close>

text \<open>
  What \<^verbatim>\<open>fit\<close> leaves on the object: the attributes \<^verbatim>\<open>ch_type\<close>,
  \<^verbatim>\<open>ch_subsets_\<close>, \<^verbatim>\<open>mappings_\<close>, \<^verbatim>\<open>corr_\<close>, \<^verbatim>\<open>bad_log\<close> and
  \<^verbatim>\<open>bad_chs_\<close> of \<^verbatim>\<open>self\<close>.
\<close>

record fitted =
  self_ch_type :: "string option"
  self_ch_subsets :: "string list list"
  self_mappings :: "real list list"
  self_corr :: "npfloat list list"
  self_bad_log :: "real list list"
  self_bad_chs :: "string list"

text \<open>
  \<^verbatim>\<open>fit\<close>. The parallel executor returns the results of the chunks in the order of
  the chunks; an error in one of them is the error of the call.
\<close>

definition fit :: "'g externals \<Rightarrow> 'g ransac \<Rightarrow> epochs \<Rightarrow> error + fitted" where
  "fit ext self e =
     (if \<not> check_data ext e then Inl CheckDataError
      else case get_channel_type (pick_types_keys ext) e of
        Inl err \<Rightarrow> Inl err
      | Inr cht \<Rightarrow>
          (let n_epochs = length (segments e);
               subsets = get_random_subsets ext self e
           in case get_mappings ext cht subsets e of
                Inl err \<Rightarrow> Inl err
              | Inr mappings \<Rightarrow>
                  (case array_split [0..<n_epochs] (n_jobs self) of
                     Inl err \<Rightarrow> Inl err
                   | Inr chunks \<Rightarrow>
                       (case traverse (iterate_epochs (n_resample self) mappings e) chunks of
                          Inl err \<Rightarrow> Inl err
                        | Inr corrs \<Rightarrow>
                            (let corr = concat corrs
                             in Inr \<lparr>self_ch_type = cht, self_ch_subsets = subsets, self_mappings = mappings,
                                     self_corr = corr,
                                     self_bad_log = bad_log_of corr (min_corr self),
                                     self_bad_chs = bad_chs_of (ch_names e) corr (min_corr self)
                                                  (unbroken_time self) n_epochs\<rparr>)))))"

section \<open>Shapes\<close>

text \<open>A segment is a rectangular array of one row for each channel.\<close>

definition wf_segment :: "nat \<Rightarrow> nat \<Rightarrow> real list list \<Rightarrow> bool" where
  "wf_segment n_channels n_tim data =
     (length data = n_channels \<and> list_all (\<lambda>row. length row = n_tim) data)"

section \<open>The specification's notions\<close>

text \<open>
  A score is below \<open>min_corr\<close> when it is a number strictly less than it, or minus
  infinity; NaN is not. The tally of sensor \<open>j\<close> is the number of segments whose score
  for the sensor is below \<open>min_corr\<close>. The sensor is flagged when the tally is strictly
  greater than \<open>unbroken_time\<close> times the number of segments, the product of the two
  as doubles.
\<close>

definition below :: "npfloat \<Rightarrow> real \<Rightarrow> bool" where
  "below c m = (case c of Fin x \<Rightarrow> x < m | PInf \<Rightarrow> False | NInf \<Rightarrow> True | NaN \<Rightarrow> False)"

definition tally :: "npfloat list list \<Rightarrow> real \<Rightarrow> nat \<Rightarrow> nat" where
  "tally corr m j = length (filter (\<lambda>row. below (row ! j) m) corr)"

definition flagged :: "npfloat list list \<Rightarrow> real \<Rightarrow> real \<Rightarrow> nat \<Rightarrow> nat \<Rightarrow> bool" where
  "flagged corr m u n_epochs j =
     (binary64 (u * binary64 (real n_epochs)) < real (tally corr m j))"

section \<open>A small recording\<close>

text \<open>
  Two EEG sensors and two segments of one sample. The generator's state is a counter
  and its permutation a rotation; both kernels predict every sensor by the sum of the
  sensors of the subset. One resample of one sensor (half of the two) is drawn.
\<close>

definition ex_ext :: "nat externals" where
  "ex_ext = \<lparr>check_data = (\<lambda>_. True),
             pick_types_keys = [''mag'', ''grad'', ''eeg'', ''eog'', ''stim'', ''misc''],
             permutation = (\<lambda>g n. (rotate g [0..<n], Suc g)),
             make_interpolation_matrix =
               (\<lambda>pos_from pos_to. map (\<lambda>_. map (\<lambda>_. 1) pos_from) pos_to),
             fast_map_meg_channels =
               (\<lambda>inst pick_from pick_to. map (\<lambda>_. map (\<lambda>_. 1) pick_from) pick_to)\<rparr>"

definition ex_cfg :: "nat \<Rightarrow> nat ransac" where
  "ex_cfg k = \<lparr>n_resample = 1, min_channels = 1 / 2, min_corr = 3 / 4, unbroken_time = 2 / 5,
               n_jobs = k, random_state = 0\<rparr>"

definition ex_seq :: "nat ransac" where
  "ex_seq = ex_cfg 1"

definition ex_par :: "nat ransac" where
  "ex_par = ex_cfg 2"

definition ex_chs :: "channel list" where
  "ex_chs = [\<lparr>ch_name = ''A'', kind = ''eeg'', loc = [0, 0, 0]\<rparr>,
             \<lparr>ch_name = ''B'', kind = ''eeg'', loc = [1, 0, 0]\<rparr>]"

definition ex_epochs :: epochs where
  "ex_epochs = \<lparr>chs = ex_chs, n_times = 1, segments = [[[1], [1]], [[1], [- 1]]]\<rparr>"

text \<open>The same sensors with one segment in which sensor B is flat.\<close>

definition ex_flat :: epochs where
  "ex_flat = \<lparr>chs = ex_chs, n_times = 1, segments = [[[1], [0]]]\<rparr>"

text \<open>
  The same sensors with three segments, and a configuration at the boundary of the
  classifier: \<open>unbroken_time\<close> is the double nearest to one third, whose product with
  three is the double 1 (the exact product is less), and \<open>min_corr\<close> is a score that
  occurs.
\<close>

definition ex_epochs3 :: epochs where
  "ex_epochs3 = \<lparr>chs = ex_chs, n_times = 1,
                  segments = [[[1], [1]], [[1], [1]], [[1], [- 1]]]\<rparr>"

definition ex_third :: "nat ransac" where
  "ex_third = \<lparr>n_resample = 1, min_channels = 1 / 2, min_corr = 1,
                unbroken_time = 6004799503160661 / 18014398509481984,
                n_jobs = 1, random_state = 0\<rparr>"

section \<open>The specification's notions of the scorer\<close>

text \<open>
  Block \<open>r\<close> of the stacked operator (its rows \<open>r * C\<close> to \<open>r * C + C - 1\<close>), and the
  prediction that an operator makes of sensor \<open>c\<close> at time \<open>t\<close> from the data of a
  segment.
\<close>

definition operator_block :: "nat \<Rightarrow> real list list \<Rightarrow> nat \<Rightarrow> real list list" where
  "operator_block n_channels mappings r = take n_channels (drop (r * n_channels) mappings)"

definition predicted :: "real list list \<Rightarrow> real list list \<Rightarrow> nat \<Rightarrow> nat \<Rightarrow> real" where
  "predicted mapping data c t =
     sum_list (map (\<lambda>j. mapping ! c ! j * data ! j ! t) [0..<length data])"

text \<open>
  The median as the middle of the sorted values (the mean of the two middle values for
  an even number of them), the pooled prediction of sensor \<open>c\<close> at time \<open>t\<close> over the
  resamples, and the cosine similarity of two series: the sum of the products divided
  by the product of the two norms, no mean being subtracted, and NaN when a norm is
  zero.
\<close>

definition middle_median :: "real list \<Rightarrow> real" where
  "middle_median xs =
     (let s = sort xs; n = length xs
      in if even n then (s ! (n div 2 - 1) + s ! (n div 2)) / 2 else s ! (n div 2))"

definition pooled :: "nat \<Rightarrow> nat \<Rightarrow> real list list \<Rightarrow> real list list \<Rightarrow> nat \<Rightarrow> nat \<Rightarrow> real" where
  "pooled r_n n_ch mappings data c t =
     middle_median (map (\<lambda>r. predicted (operator_block n_ch mappings r) data c t) [0..<r_n])"

definition cosine_similarity :: "real list \<Rightarrow> real list \<Rightarrow> npfloat" where
  "cosine_similarity actual pred =
     (let norms = sqrt (sum_list (map (\<lambda>x. x * x) actual)) *
                  sqrt (sum_list (map (\<lambda>x. x * x) pred))
      in if norms = 0 then NaN else Fin (sum_list (map2 (*) actual pred) / norms))"

text \<open>A segment of two sensors and two samples, and two stacked operators.\<close>

definition ex_data :: "real list list" where
  "ex_data = [[1, 2], [3, 4]]"

definition ex_stacked :: "real list list" where
  "ex_stacked = [[1, 0], [2, 0], [0, 10], [0, 20]]"

text \<open>
  A segment and two stacked operators whose scores are rational: the operators predict
  both sensors by the first sensor and by three times the first sensor.
\<close>

definition ex_data2 :: "real list list" where
  "ex_data2 = [[3, 4], [5, 0]]"

definition ex_stacked2 :: "real list list" where
  "ex_stacked2 = [[1, 0], [1, 0], [3, 0], [3, 0]]"

section \<open>The generator's contract\<close>

text \<open>\<^verbatim>\<open>rng.permutation(n)\<close> returns a permutation of \<open>0, ..., n - 1\<close>.\<close>

definition valid_permutation :: "('g \<Rightarrow> nat \<Rightarrow> nat list \<times> 'g) \<Rightarrow> bool" where
  "valid_permutation perm = (\<forall>g n. mset (fst (perm g n)) = mset [0..<n])"

text \<open>
  Four EEG sensors, of which three resamples are drawn: three eighths of four is one
  and a half, which rounds to the even two.
\<close>

definition ex_chs4 :: "channel list" where
  "ex_chs4 = [\<lparr>ch_name = ''A'', kind = ''eeg'', loc = [0, 0, 0]\<rparr>,
              \<lparr>ch_name = ''B'', kind = ''eeg'', loc = [1, 0, 0]\<rparr>,
              \<lparr>ch_name = ''C'', kind = ''eeg'', loc = [0, 1, 0]\<rparr>,
              \<lparr>ch_name = ''D'', kind = ''eeg'', loc = [0, 0, 1]\<rparr>]"

definition ex_epochs4 :: epochs where
  "ex_epochs4 = \<lparr>chs = ex_chs4, n_times = 1, segments = [[[1], [1], [1], [1]]]\<rparr>"

definition ex_cfg3 :: "nat ransac" where
  "ex_cfg3 = \<lparr>n_resample = 3, min_channels = 3 / 8, min_corr = 3 / 4, unbroken_time = 2 / 5,
               n_jobs = 1, random_state = 0\<rparr>"

text \<open>
  Ten EEG sensors and the double nearest to one twentieth: the exact product with ten
  is greater than one half, the product of the doubles is one half, which rounds to
  the even zero.
\<close>

definition ex_chs10 :: "channel list" where
  "ex_chs10 = map (\<lambda>name. \<lparr>ch_name = name, kind = ''eeg'', loc = [0, 0, 0]\<rparr>)
                [''S0'', ''S1'', ''S2'', ''S3'', ''S4'', ''S5'', ''S6'', ''S7'', ''S8'', ''S9'']"

definition ex_epochs10 :: epochs where
  "ex_epochs10 = \<lparr>chs = ex_chs10, n_times = 1, segments = []\<rparr>"

definition ex_twentieth :: "nat ransac" where
  "ex_twentieth = \<lparr>n_resample = 2, min_channels = 3602879701896397 / 72057594037927936,
                    min_corr = 3 / 4, unbroken_time = 2 / 5, n_jobs = 1, random_state = 0\<rparr>"

section \<open>Recordings of other channel types\<close>

text \<open>
  What MNE guarantees of a recording: it has a channel, and the type of every channel
  is a key of the dictionary of \<^verbatim>\<open>channel_indices_by_type\<close>; \<^verbatim>\<open>'meg'\<close> is a
  family of types and not a key.
\<close>

definition listed_channels :: "string list \<Rightarrow> epochs \<Rightarrow> bool" where
  "listed_channels keys e =
     (chs e \<noteq> [] \<and> list_all (\<lambda>ch. kind ch \<in> set keys) (chs e) \<and> ''meg'' \<notin> set keys)"

text \<open>A recording with an EEG sensor and a magnetometer, and one with an EOG channel only.\<close>

definition ex_mixed :: epochs where
  "ex_mixed = \<lparr>chs = [\<lparr>ch_name = ''A'', kind = ''eeg'', loc = [0, 0, 0]\<rparr>,
                        \<lparr>ch_name = ''M'', kind = ''mag'', loc = [1, 0, 0]\<rparr>],
                 n_times = 1, segments = [[[1], [1]]]\<rparr>"

definition ex_eog :: epochs where
  "ex_eog = \<lparr>chs = [\<lparr>ch_name = ''E'', kind = ''eog'', loc = [0, 0, 0]\<rparr>],
               n_times = 1, segments = [[[1]]]\<rparr>"

section \<open>Rounding to a double\<close>

lemma np_round_of_int: "np_round (of_int n) = n"
  by (simp add: np_round_def)

lemma np_round_mono: "x \<le> y \<Longrightarrow> np_round x \<le> np_round y"
proof -
  assume xy: "x \<le> y"
  have fl: "\<lfloor>x\<rfloor> \<le> \<lfloor>y\<rfloor>" using xy by (rule floor_mono)
  show ?thesis
  proof (cases "\<lfloor>x\<rfloor> = \<lfloor>y\<rfloor>")
    case True
    then show ?thesis using xy by (auto simp: np_round_def Let_def)
  next
    case False
    with fl have "\<lfloor>x\<rfloor> + 1 \<le> \<lfloor>y\<rfloor>" by simp
    moreover have "np_round x \<le> \<lfloor>x\<rfloor> + 1" by (auto simp: np_round_def Let_def)
    moreover have "\<lfloor>y\<rfloor> \<le> np_round y" by (auto simp: np_round_def Let_def)
    ultimately show ?thesis by linarith
  qed
qed

lemma binary64_ulp_pos: "0 < binary64_ulp x"
  by (simp add: binary64_ulp_def)

lemma binary64_le_grid:
  assumes "x \<le> of_int k * binary64_ulp x"
  shows "binary64 x \<le> of_int k * binary64_ulp x"
proof (cases "x = 0")
  case True
  with assms show ?thesis by (simp add: binary64_def)
next
  case False
  let ?q = "binary64_ulp x"
  from assms binary64_ulp_pos[of x] have "x / ?q \<le> of_int k"
    by (simp add: pos_divide_le_eq)
  then have "np_round (x / ?q) \<le> k"
    using np_round_mono[of "x / ?q" "of_int k"] by (simp add: np_round_of_int)
  then have "of_int (np_round (x / ?q)) * ?q \<le> of_int k * ?q"
    using binary64_ulp_pos[of x] by (simp add: mult_right_mono)
  with False show ?thesis by (simp add: binary64_def)
qed

lemma binary64_ge_grid:
  assumes "of_int k * binary64_ulp x \<le> x"
  shows "of_int k * binary64_ulp x \<le> binary64 x"
proof (cases "x = 0")
  case True
  with assms show ?thesis by (simp add: binary64_def)
next
  case False
  let ?q = "binary64_ulp x"
  from assms binary64_ulp_pos[of x] have "of_int k \<le> x / ?q"
    by (simp add: pos_le_divide_eq)
  then have "k \<le> np_round (x / ?q)"
    using np_round_mono[of "of_int k" "x / ?q"] by (simp add: np_round_of_int)
  then have "of_int k * ?q \<le> of_int (np_round (x / ?q)) * ?q"
    using binary64_ulp_pos[of x] by (simp add: mult_right_mono)
  with False show ?thesis by (simp add: binary64_def)
qed

lemma binary64_nonneg: "0 \<le> x \<Longrightarrow> 0 \<le> binary64 x"
  using binary64_ge_grid[of 0 x] by simp

lemma binary64_nonpos: "x \<le> 0 \<Longrightarrow> binary64 x \<le> 0"
  using binary64_le_grid[of x 0] by simp


lemma two_powr_powi: "2 powr real_of_int k = (2::real) powi k"
  by (rule powr_real_of_int') simp_all

lemma floor_log2_bounds:
  assumes "x \<noteq> 0"
  shows "2 powi \<lfloor>log 2 \<bar>x\<bar>\<rfloor> \<le> \<bar>x\<bar>" "\<bar>x\<bar> < 2 powi (\<lfloor>log 2 \<bar>x\<bar>\<rfloor> + 1)"
proof -
  from assms have pos: "0 < \<bar>x\<bar>" by simp
  have "2 powr real_of_int \<lfloor>log 2 \<bar>x\<bar>\<rfloor> \<le> \<bar>x\<bar> \<and>
        \<bar>x\<bar> < 2 powr real_of_int (\<lfloor>log 2 \<bar>x\<bar>\<rfloor> + 1)"
    using floor_log_eq_powr_iff[OF pos, of 2 "\<lfloor>log 2 \<bar>x\<bar>\<rfloor>"] by simp
  then show "2 powi \<lfloor>log 2 \<bar>x\<bar>\<rfloor> \<le> \<bar>x\<bar>" "\<bar>x\<bar> < 2 powi (\<lfloor>log 2 \<bar>x\<bar>\<rfloor> + 1)"
    by (simp_all only: two_powr_powi)
qed

lemma floor_log2_eqI:
  assumes "2 powi k \<le> \<bar>x\<bar>" "\<bar>x\<bar> < 2 powi (k + 1)"
  shows "\<lfloor>log 2 \<bar>x\<bar>\<rfloor> = k"
proof -
  have "0 < (2::real) powi k" by simp
  with assms(1) have pos: "0 < \<bar>x\<bar>" by linarith
  show ?thesis
    using floor_log_eq_powr_iff[OF pos, of 2 k] assms
    by (simp add: two_powr_powi[symmetric])
qed

lemma binary64_exponent_upper: "x \<noteq> 0 \<Longrightarrow> \<bar>x\<bar> < 2 powi (binary64_exponent x + 1)"
proof -
  assume x: "x \<noteq> 0"
  have "(2::real) powi (\<lfloor>log 2 \<bar>x\<bar>\<rfloor> + 1) \<le> 2 powi (binary64_exponent x + 1)"
    by (intro power_int_increasing) (simp_all add: binary64_exponent_def)
  with floor_log2_bounds(2)[OF x] show ?thesis by linarith
qed

lemma binary64_exponent_lower:
  "x \<noteq> 0 \<Longrightarrow> - 1022 < binary64_exponent x \<Longrightarrow> 2 powi binary64_exponent x \<le> \<bar>x\<bar>"
  using floor_log2_bounds(1)[of x] by (simp add: binary64_exponent_def max_def split: if_splits)

lemma binary64_exponent_mono:
  assumes "x \<noteq> 0" "\<bar>x\<bar> \<le> \<bar>y\<bar>"
  shows "binary64_exponent x \<le> binary64_exponent y"
proof -
  from assms have "0 < \<bar>x\<bar>" by simp
  with assms(2) have "log 2 \<bar>x\<bar> \<le> log 2 \<bar>y\<bar>" by simp
  then have "\<lfloor>log 2 \<bar>x\<bar>\<rfloor> \<le> \<lfloor>log 2 \<bar>y\<bar>\<rfloor>" by (rule floor_mono)
  then show ?thesis by (simp add: binary64_exponent_def)
qed

lemma binade_top_grid: "2 powi (binary64_exponent x + 1) = of_int (2 ^ 53) * binary64_ulp x"
proof -
  have "binary64_exponent x + 1 = 53 + (binary64_exponent x - 52)" by simp
  then have "(2::real) powi (binary64_exponent x + 1) = 2 powi (53 + (binary64_exponent x - 52))"
    by (simp only:)
  also have "\<dots> = 2 powi 53 * 2 powi (binary64_exponent x - 52)"
    by (subst power_int_add) simp_all
  finally show ?thesis by (simp add: binary64_ulp_def)
qed

lemma binade_bottom_grid: "2 powi binary64_exponent x = of_int (2 ^ 52) * binary64_ulp x"
proof -
  have "binary64_exponent x = 52 + (binary64_exponent x - 52)" by simp
  then have "(2::real) powi binary64_exponent x = 2 powi (52 + (binary64_exponent x - 52))"
    by (simp only:)
  also have "\<dots> = 2 powi 52 * 2 powi (binary64_exponent x - 52)"
    by (subst power_int_add) simp_all
  finally show ?thesis by (simp add: binary64_ulp_def)
qed


lemma binary64_same_binade_mono:
  assumes "x \<le> y" "x \<noteq> 0" "y \<noteq> 0" "binary64_exponent x = binary64_exponent y"
  shows "binary64 x \<le> binary64 y"
proof -
  let ?q = "binary64_ulp y"
  have q: "binary64_ulp x = ?q" using assms(4) by (simp add: binary64_ulp_def)
  have "x / ?q \<le> y / ?q" using assms(1) binary64_ulp_pos[of y] by (simp add: divide_right_mono)
  then have "np_round (x / ?q) \<le> np_round (y / ?q)" by (rule np_round_mono)
  then have "of_int (np_round (x / ?q)) * ?q \<le> of_int (np_round (y / ?q)) * ?q"
    using binary64_ulp_pos[of y] by (simp add: mult_right_mono)
  then show ?thesis using assms(2,3) by (simp add: binary64_def q)
qed

lemma binary64_mono:
  assumes "x \<le> y"
  shows "binary64 x \<le> binary64 y"
proof -
  consider "x \<le> 0" "0 \<le> y" | "0 < x" | "y < 0" using assms by linarith
  then show ?thesis
  proof cases
    case 1
    then show ?thesis using binary64_nonpos[of x] binary64_nonneg[of y] by linarith
  next
    case 2
    with assms have y: "0 < y" and nz: "x \<noteq> 0" "y \<noteq> 0" by simp_all
    have le: "binary64_exponent x \<le> binary64_exponent y"
      using binary64_exponent_mono[OF nz(1), of y] 2 assms y by simp
    show ?thesis
    proof (cases "binary64_exponent x = binary64_exponent y")
      case True
      then show ?thesis using assms nz by (intro binary64_same_binade_mono)
    next
      case False
      with le have lt: "binary64_exponent x + 1 \<le> binary64_exponent y" by simp
      have "x \<le> 2 powi (binary64_exponent x + 1)"
        using binary64_exponent_upper[OF nz(1)] 2 by simp
      then have "x \<le> of_int (2 ^ 53) * binary64_ulp x"
        by (simp only: binade_top_grid)
      then have "binary64 x \<le> of_int (2 ^ 53) * binary64_ulp x" by (rule binary64_le_grid)
      then have a: "binary64 x \<le> 2 powi (binary64_exponent x + 1)"
        by (simp only: binade_top_grid)
      have b: "(2::real) powi (binary64_exponent x + 1) \<le> 2 powi binary64_exponent y"
        using lt by (intro power_int_increasing) simp_all
      have "- 1022 < binary64_exponent y"
        using lt by (simp add: binary64_exponent_def[of x])
      from binary64_exponent_lower[OF nz(2) this] y
      have "2 powi binary64_exponent y \<le> y" by simp
      then have "of_int (2 ^ 52) * binary64_ulp y \<le> y"
        by (simp only: binade_bottom_grid)
      then have "of_int (2 ^ 52) * binary64_ulp y \<le> binary64 y" by (rule binary64_ge_grid)
      then have c: "2 powi binary64_exponent y \<le> binary64 y"
        by (simp only: binade_bottom_grid)
      from a b c show ?thesis by linarith
    qed
  next
    case 3
    with assms have x: "x < 0" and nz: "x \<noteq> 0" "y \<noteq> 0" by simp_all
    have le: "binary64_exponent y \<le> binary64_exponent x"
      using binary64_exponent_mono[OF nz(2), of x] 3 assms x by simp
    show ?thesis
    proof (cases "binary64_exponent x = binary64_exponent y")
      case True
      then show ?thesis using assms nz by (intro binary64_same_binade_mono)
    next
      case False
      with le have lt: "binary64_exponent y + 1 \<le> binary64_exponent x" by simp
      have "- 1022 < binary64_exponent x"
        using lt by (simp add: binary64_exponent_def[of y])
      from binary64_exponent_lower[OF nz(1) this] x
      have "x \<le> - (2 powi binary64_exponent x)" by simp
      then have "x \<le> of_int (- (2 ^ 52)) * binary64_ulp x"
        by (simp only: binade_bottom_grid of_int_minus mult_minus_left)
      then have "binary64 x \<le> of_int (- (2 ^ 52)) * binary64_ulp x" by (rule binary64_le_grid)
      then have a: "binary64 x \<le> - (2 powi binary64_exponent x)"
        by (simp only: binade_bottom_grid of_int_minus mult_minus_left)
      have b: "(2::real) powi (binary64_exponent y + 1) \<le> 2 powi binary64_exponent x"
        using lt by (intro power_int_increasing) simp_all
      have "- (2 powi (binary64_exponent y + 1)) \<le> y"
        using binary64_exponent_upper[OF nz(2)] 3 by simp
      then have "of_int (- (2 ^ 53)) * binary64_ulp y \<le> y"
        by (simp only: binade_top_grid of_int_minus mult_minus_left)
      then have "of_int (- (2 ^ 53)) * binary64_ulp y \<le> binary64 y" by (rule binary64_ge_grid)
      then have c: "- (2 powi (binary64_exponent y + 1)) \<le> binary64 y"
        by (simp only: binade_top_grid of_int_minus mult_minus_left)
      from a b c show ?thesis by linarith
    qed
  qed
qed


lemma binary64_exponent_small:
  assumes "\<bar>x\<bar> < 2 ^ 53" and False: "x \<noteq> 0"
  shows "binary64_exponent x \<le> 52"
proof -
  have "\<lfloor>log 2 \<bar>x\<bar>\<rfloor> \<le> 52"
  proof (rule ccontr)
    assume "\<not> \<lfloor>log 2 \<bar>x\<bar>\<rfloor> \<le> 52"
    then have "53 \<le> \<lfloor>log 2 \<bar>x\<bar>\<rfloor>" by simp
    then have "(2::real) powi 53 \<le> 2 powi \<lfloor>log 2 \<bar>x\<bar>\<rfloor>"
      by (intro power_int_increasing) simp_all
    with floor_log2_bounds(1)[OF False] assms show False by simp
  qed
  then show ?thesis by (simp add: binary64_exponent_def)
qed

lemma binary64_zero: "binary64 0 = 0"
  by (simp add: binary64_def)

lemma int_on_grid:
  assumes "binary64_exponent x \<le> 52"
  shows "of_int k = of_int (k * 2 ^ nat (52 - binary64_exponent x)) * binary64_ulp x"
proof -
  have "binary64_ulp x = 2 powi (- int (nat (52 - binary64_exponent x)))"
    using assms by (simp add: binary64_ulp_def)
  also have "\<dots> = inverse (2 ^ nat (52 - binary64_exponent x))"
    by (simp only: power_int_minus power_int_of_nat)
  finally show ?thesis by simp
qed

lemma binary64_le_int:
  assumes "x \<le> of_int k" "\<bar>x\<bar> < 2 ^ 53"
  shows "binary64 x \<le> of_int k"
proof (cases "x = 0")
  case True
  with assms(1) show ?thesis by (simp add: binary64_zero)
next
  case False
  note g = int_on_grid[OF binary64_exponent_small[OF assms(2) False], of k]
  from assms(1) have "x \<le> of_int (k * 2 ^ nat (52 - binary64_exponent x)) * binary64_ulp x"
    by (simp only: g[symmetric])
  then have "binary64 x \<le> of_int (k * 2 ^ nat (52 - binary64_exponent x)) * binary64_ulp x"
    by (rule binary64_le_grid)
  then show ?thesis by (simp only: g[symmetric])
qed

lemma binary64_ge_int:
  assumes "of_int k \<le> x" "\<bar>x\<bar> < 2 ^ 53"
  shows "of_int k \<le> binary64 x"
proof (cases "x = 0")
  case True
  with assms(1) show ?thesis by (simp add: binary64_zero)
next
  case False
  note g = int_on_grid[OF binary64_exponent_small[OF assms(2) False], of k]
  from assms(1) have "of_int (k * 2 ^ nat (52 - binary64_exponent x)) * binary64_ulp x \<le> x"
    by (simp only: g[symmetric])
  then have "of_int (k * 2 ^ nat (52 - binary64_exponent x)) * binary64_ulp x \<le> binary64 x"
    by (rule binary64_ge_grid)
  then show ?thesis by (simp only: g[symmetric])
qed

lemma binary64_of_nat: "n < 2 ^ 53 \<Longrightarrow> binary64 (real n) = real n"
proof -
  assume n: "n < 2 ^ 53"
  then have "real n < 2 ^ 53"
    by (metis of_nat_less_iff of_nat_numeral of_nat_power)
  then have b: "\<bar>real n\<bar> < 2 ^ 53" by simp
  have "binary64 (real n) \<le> of_int (int n)" by (rule binary64_le_int[OF _ b]) simp
  moreover have "of_int (int n) \<le> binary64 (real n)" by (rule binary64_ge_int[OF _ b]) simp
  ultimately show ?thesis by simp
qed

lemma binary64_eval:
  assumes "2 powi e \<le> \<bar>x\<bar>" "\<bar>x\<bar> < 2 powi (e + 1)" "- 1022 \<le> e"
  shows "binary64 x = of_int (np_round (x / 2 powi (e - 52))) * 2 powi (e - 52)"
proof -
  have "0 < (2::real) powi e" by simp
  with assms(1) have "0 < \<bar>x\<bar>" by linarith
  then have nz: "x \<noteq> 0" by simp
  have "binary64_exponent x = e"
    using floor_log2_eqI[OF assms(1,2)] assms(3) by (simp add: binary64_exponent_def)
  then show ?thesis using nz by (simp add: binary64_def binary64_ulp_def)
qed

text \<open>Values at which the rounding shows.\<close>

lemma np_round_halves: "np_round (1 / 2) = 0" "np_round (3 / 2) = 2" "np_round (5 / 2) = 2"
  by (simp_all add: np_round_def)

lemma binary64_one: "binary64 1 = 1"
  using binary64_of_nat[of 1] by simp

lemma binary64_numeral: "(numeral k :: nat) < 2 ^ 53 \<Longrightarrow> binary64 (numeral k) = numeral k"
  using binary64_of_nat[of "numeral k"] by simp

lemma binary64_three_halves: "binary64 (3 / 2) = 3 / 2"
  by (subst binary64_eval[where e = 0]) (simp_all add: np_round_def power_int_minus)

lemma binary64_third_times_three:
  "binary64 (18014398509481983 / 18014398509481984) = 1"
  by (subst binary64_eval[where e = "- 1"]) (simp_all add: np_round_def power_int_minus)

lemma binary64_twentieth_times_ten:
  "binary64 (18014398509481985 / 36028797018963968) = 1 / 2"
  by (subst binary64_eval[where e = "- 1"]) (simp_all add: np_round_def power_int_minus)

lemma binary64_four_fifths: "binary64 (4 / 5) = 3602879701896397 / 4503599627370496"
  by (subst binary64_eval[where e = "- 1"]) (simp_all add: np_round_def power_int_minus)

lemma binary64_two_fifths: "binary64 (2 / 5) = 3602879701896397 / 9007199254740992"
  by (subst binary64_eval[where e = "- 2"]) (simp_all add: np_round_def power_int_minus)

section \<open>Loops and partitions\<close>

lemma traverse_Inr_iff:
  "traverse f xs = Inr ys \<longleftrightarrow> list_all2 (\<lambda>x y. f x = Inr y) xs ys"
proof (induction xs arbitrary: ys)
  case Nil
  then show ?case by auto
next
  case (Cons x xs)
  then show ?case
    by (cases ys) (auto simp: Cons.IH[symmetric] split: sum.splits)
qed

lemma traverse_length: "traverse f xs = Inr ys \<Longrightarrow> length ys = length xs"
  by (simp add: traverse_Inr_iff list_all2_lengthD)

lemma traverse_nth:
  "traverse f xs = Inr ys \<Longrightarrow> i < length xs \<Longrightarrow> f (xs ! i) = Inr (ys ! i)"
  by (auto simp: traverse_Inr_iff dest: list_all2_nthD)

lemma traverse_total:
  "(\<And>x. x \<in> set xs \<Longrightarrow> f x = Inr (g x)) \<Longrightarrow> traverse f xs = Inr (map g xs)"
  by (induction xs) auto

lemma traverse_list_all:
  assumes "traverse f xs = Inr ys" "\<And>x y. x \<in> set xs \<Longrightarrow> f x = Inr y \<Longrightarrow> P y"
  shows "list_all P ys"
proof -
  from assms(1) have "list_all2 (\<lambda>x y. f x = Inr y) xs ys" by (simp add: traverse_Inr_iff)
  then show ?thesis using assms(2)
    by (induction rule: list_all2_induct) auto
qed

lemma concat_split_sizes:
  "length xs \<le> sum_list ns \<Longrightarrow> concat (split_sizes xs ns) = xs"
proof (induction ns arbitrary: xs)
  case Nil
  then show ?case by simp
next
  case (Cons n ns)
  then have "length (drop n xs) \<le> sum_list ns" by simp
  then have "concat (split_sizes (drop n xs) ns) = drop n xs" by (rule Cons.IH)
  then show ?case by simp
qed

lemma length_split_sizes: "length (split_sizes xs ns) = length ns"
  by (induction ns arbitrary: xs) auto

lemma section_sizes_sum:
  assumes "0 < k"
  shows "sum_list (replicate (n mod k) (n div k + 1) @ replicate (k - n mod k) (n div k)) = (n::nat)"
proof -
  have r: "n mod k \<le> k" using assms by (simp add: less_imp_le)
  have "n mod k * (n div k + 1) + (k - n mod k) * (n div k)
        = n mod k + (n mod k + (k - n mod k)) * (n div k)"
    by (simp add: algebra_simps)
  also have "\<dots> = n mod k + k * (n div k)" using r by simp
  also have "\<dots> = n" by simp
  finally show ?thesis by (simp add: sum_list_replicate)
qed

lemma array_split_concat:
  assumes "array_split xs k = Inr chunks"
  shows "concat chunks = xs"
proof -
  from assms have k: "0 < k" by (auto simp: array_split_def split: if_splits)
  let ?ns = "replicate (length xs mod k) (length xs div k + 1) @
             replicate (k - length xs mod k) (length xs div k)"
  from assms k have "chunks = split_sizes xs ?ns" by (simp add: array_split_def)
  moreover have "length xs \<le> sum_list ?ns"
    using section_sizes_sum[OF k, of "length xs"] by linarith
  ultimately show ?thesis by (simp only: concat_split_sizes)
qed

lemma array_split_length:
  "array_split xs k = Inr chunks \<Longrightarrow> length chunks = k"
  unfolding array_split_def
  by (auto split: if_splits simp: length_split_sizes)

lemma array_split_one: "array_split xs (Suc 0) = Inr [xs]"
  by (simp add: array_split_def)

section \<open>The classifier counts\<close>

lemma bad_log_of_eq:
  "bad_log_of corr m = map (map (\<lambda>c. if np_less c (Fin m) then 1 else 0)) corr"
  unfolding bad_log_of_def mask_assign_def zeros_like_def less_mask_def
  by (simp add: zip_map_map map2_map_map list_eq_iff_nth_eq)

lemma np_less_below: "np_less c (Fin m) = below c m"
  by (cases c) (simp_all add: below_def)

lemma sum_list_indicator:
  "sum_list (map (\<lambda>x. if P x then (1::real) else 0) xs) = real (length (filter P xs))"
  by (induction xs) auto

lemma column_sum_tally:
  assumes "list_all (\<lambda>row. length row = n) corr" "j < n"
  shows "sum_axis0_real n (bad_log_of corr m) ! j = real (tally corr m j)"
proof -
  have "map (\<lambda>row. row ! j) (bad_log_of corr m) =
        map (\<lambda>row. if np_less (row ! j) (Fin m) then 1 else 0) corr"
    using assms by (auto simp: bad_log_of_eq list_all_iff)
  then show ?thesis
    using assms(2) by (simp add: sum_axis0_real_def tally_def sum_list_indicator np_less_below)
qed

lemma bad_idx_of_eq:
  assumes "list_all (\<lambda>row. length row = n) corr"
  shows "bad_idx_of n corr m u k = filter (flagged corr m u k) [0..<n]"
proof -
  have "length (sum_axis0_real n (bad_log_of corr m)) = n" by (simp add: sum_axis0_real_def)
  then show ?thesis
    unfolding bad_idx_of_def np_where_greater_def flagged_def
    using column_sum_tally[OF assms] by (auto intro!: filter_cong)
qed

lemma bad_chs_of_eq:
  "bad_chs_of names corr m u k = map (\<lambda>p. names ! p) (bad_idx_of (length names) corr m u k)"
  by (simp add: bad_chs_of_def Let_def)

lemma tally_le_length: "tally corr m j \<le> length corr"
  by (simp add: tally_def)

section \<open>What a successful fit went through\<close>

lemma iterate_epochs_shape:
  assumes "iterate_epochs r mp e idxs = Inr rows"
  shows "length rows = length idxs \<and> list_all (\<lambda>row. length row = length (ch_names e)) rows"
proof -
  let ?f = "\<lambda>(idx, _::nat).
              case getitem_epochs e idx of
                Inl err \<Rightarrow> Inl err
              | Inr data \<Rightarrow>
                  (case compute_correlations r mp (n_times e) data of
                     Inl err \<Rightarrow> Inl err
                   | Inr corr \<Rightarrow> if length corr = length (ch_names e) then Inr corr else Inl ShapeError)"
  from assms have t: "traverse ?f (enumerate_py idxs) = Inr rows"
    by (simp add: iterate_epochs_def)
  have "length rows = length idxs"
    using traverse_length[OF t] by (simp add: enumerate_py_def)
  moreover have "list_all (\<lambda>row. length row = length (ch_names e)) rows"
    by (rule traverse_list_all[OF t]) (auto split: sum.splits if_splits)
  ultimately show ?thesis by simp
qed

lemma fit_InrD:
  assumes "fit ext self e = Inr st"
  obtains cht mappings chunks corrs where
    "check_data ext e"
    "get_channel_type (pick_types_keys ext) e = Inr cht"
    "get_mappings ext cht (get_random_subsets ext self e) e = Inr mappings"
    "array_split [0..<length (segments e)] (n_jobs self) = Inr chunks"
    "traverse (iterate_epochs (n_resample self) mappings e) chunks = Inr corrs"
    "st = \<lparr>self_ch_type = cht, self_ch_subsets = get_random_subsets ext self e,
           self_mappings = mappings, self_corr = concat corrs,
           self_bad_log = bad_log_of (concat corrs) (min_corr self),
           self_bad_chs = bad_chs_of (ch_names e) (concat corrs) (min_corr self)
                            (unbroken_time self) (length (segments e))\<rparr>"
  using assms unfolding fit_def Let_def
  by (auto split: if_splits sum.splits)

lemma concat_rows_shape:
  assumes "list_all2 (\<lambda>chunk rows. length rows = length chunk \<and> list_all P rows) chunks corrs"
  shows "length (concat corrs) = length (concat chunks) \<and> list_all P (concat corrs)"
  using assms by (induction rule: list_all2_induct) auto

lemma fit_corr_shape:
  assumes "fit ext self e = Inr st"
  shows "length (self_corr st) = length (segments e) \<and>
         list_all (\<lambda>row. length row = length (ch_names e)) (self_corr st)"
proof -
  from assms obtain cht :: "string option" and mappings chunks corrs where
    sp: "array_split [0..<length (segments e)] (n_jobs self) = Inr chunks" and
    tr: "traverse (iterate_epochs (n_resample self) mappings e) chunks = Inr corrs" and
    st: "self_corr st = concat corrs"
    by (elim fit_InrD) simp
  from tr have "list_all2 (\<lambda>chunk rows. iterate_epochs (n_resample self) mappings e chunk = Inr rows)
                  chunks corrs"
    by (simp add: traverse_Inr_iff)
  then have "list_all2 (\<lambda>chunk rows. length rows = length chunk \<and>
                list_all (\<lambda>row. length row = length (ch_names e)) rows) chunks corrs"
    by (rule list_all2_mono) (use iterate_epochs_shape in blast)
  from concat_rows_shape[OF this] array_split_concat[OF sp] st show ?thesis by simp
qed

lemma fit_bad_chs:
  assumes "fit ext self e = Inr st"
  shows "self_bad_chs st = bad_chs_of (ch_names e) (self_corr st) (min_corr self)
                             (unbroken_time self) (length (segments e))"
    and "self_bad_log st = bad_log_of (self_corr st) (min_corr self)"
  using assms by (elim fit_InrD, simp)+

section \<open>The small recording, evaluated\<close>

lemma upt2: "[0..<2] = [0, Suc 0]"
  by (simp add: upt_conv_Cons numeral_2_eq_2)

lemma ex_seq_simps:
  "n_resample ex_seq = 1" "min_corr ex_seq = 3 / 4" "unbroken_time ex_seq = 2 / 5"
  "n_jobs ex_seq = 1" "min_channels ex_seq = 1 / 2" "random_state ex_seq = 0"
  by (simp_all add: ex_seq_def ex_cfg_def)

lemma ex_par_simps:
  "n_resample ex_par = 1" "min_corr ex_par = 3 / 4" "unbroken_time ex_par = 2 / 5"
  "n_jobs ex_par = 2" "min_channels ex_par = 1 / 2" "random_state ex_par = 0"
  by (simp_all add: ex_par_def ex_cfg_def)

lemma ex_epochs_simps:
  "ch_names ex_epochs = [''A'', ''B'']" "length (segments ex_epochs) = 2"
  "check_data ex_ext ex_epochs"
  by (simp_all add: ch_names_def ex_epochs_def ex_chs_def ex_ext_def)

lemma ex_type: "get_channel_type (pick_types_keys ex_ext) ex_epochs = Inr (Some ''eeg'')"
  by (simp add: get_channel_type_def channel_indices_by_type_def contains_ch_type_def
      ex_ext_def ex_epochs_def ex_chs_def)

lemma np_round_1: "np_round 1 = 1"
  by (simp add: np_round_def)

lemma half_of_two_channels:
  "length (ch_names e) = 2 \<Longrightarrow> min_channels self = 1 / 2 \<Longrightarrow> n_samples_of self e = 1"
  by (simp add: n_samples_of_def binary64_numeral binary64_one np_round_1)

lemma ex_picks: "picks_of ex_ext (ex_cfg k) ex_epochs = [[0]]"
proof -
  have "n_samples_of (ex_cfg k) ex_epochs = 1"
    by (rule half_of_two_channels) (simp_all add: ch_names_def ex_epochs_def ex_chs_def ex_cfg_def)
  then show ?thesis
    by (simp add: picks_of_def ch_names_def ex_ext_def
        ex_cfg_def ex_epochs_def ex_chs_def py_slice_to_def upt2)
qed

lemma ex_subsets: "get_random_subsets ex_ext (ex_cfg k) ex_epochs = [[''A'']]"
  by (simp add: get_random_subsets_def ex_picks) (simp add: ch_names_def ex_epochs_def ex_chs_def)

lemma ex_mappings: "get_mappings ex_ext (Some ''eeg'') [[''A'']] ex_epochs = Inr [[1, 0], [1, 0]]"
  by (simp add: get_mappings_def build_mapping_def pick_from_of_def set_columns_def
      enumerate_py_def ch_names_def ex_ext_def ex_epochs_def ex_chs_def upt2 numeral_2_eq_2)

lemma ex_corr_seg0: "compute_correlations 1 [[1, 0], [1, 0]] 1 [[1], [1]] = Inr [Fin 1, Fin 1]"
  by (simp add: compute_correlations_def predict_def np_dot_def np_T_def ravel_F_def
      reshape_F3_def sum_axis0_def multiply2_def np_sum_def np_median_def upt2)

lemma ex_corr_seg1:
  "compute_correlations 1 [[1, 0], [1, 0]] 1 [[1], [- 1]] = Inr [Fin 1, Fin (- 1)]"
  by (simp add: compute_correlations_def predict_def np_dot_def np_T_def ravel_F_def
      reshape_F3_def sum_axis0_def multiply2_def np_sum_def np_median_def upt2)

lemma ex_rows_one: "iterate_epochs 1 [[1, 0], [1, 0]] ex_epochs [i] = Inr [[Fin 1, Fin 1]]"
  using ex_corr_seg0
  by (simp add: iterate_epochs_def enumerate_py_def getitem_epochs_def ch_names_def
      ex_epochs_def ex_chs_def)

lemma ex_rows_all:
  "iterate_epochs 1 [[1, 0], [1, 0]] ex_epochs [0, 1] = Inr [[Fin 1, Fin 1], [Fin 1, Fin (- 1)]]"
  using ex_corr_seg0 ex_corr_seg1
  by (simp add: iterate_epochs_def enumerate_py_def getitem_epochs_def ch_names_def
      ex_epochs_def ex_chs_def upt2)

lemma ex_bad_seq:
  "bad_chs_of [''A'', ''B''] [[Fin 1, Fin 1], [Fin 1, Fin (- 1)]] (3 / 4) (2 / 5) 2 = [''B'']"
  by (simp add: bad_chs_of_def bad_idx_of_def np_where_greater_def sum_axis0_real_def
      bad_log_of_def mask_assign_def zeros_like_def less_mask_def upt2 binary64_numeral binary64_four_fifths)

lemma ex_bad_par:
  "bad_chs_of [''A'', ''B''] [[Fin 1, Fin 1], [Fin 1, Fin 1]] (3 / 4) (2 / 5) 2 = []"
  by (simp add: bad_chs_of_def bad_idx_of_def np_where_greater_def sum_axis0_real_def
      bad_log_of_def mask_assign_def zeros_like_def less_mask_def upt2 binary64_numeral binary64_four_fifths)

lemma ex_split_seq: "array_split [0..<2] 1 = Inr [[0, 1]]"
  by (simp add: array_split_def upt2)

lemma ex_split_par: "array_split [0..<2] 2 = Inr [[0], [1]]"
  by (simp add: array_split_def upt2 numeral_2_eq_2)

lemma ex_bad_log_seq: "bad_log_of [[Fin 1, Fin 1], [Fin 1, Fin (- 1)]] (3 / 4) = [[0, 0], [0, 1]]"
  by (simp add: bad_log_of_def mask_assign_def zeros_like_def less_mask_def)

lemma ex_bad_log_par: "bad_log_of [[Fin 1, Fin 1], [Fin 1, Fin 1]] (3 / 4) = [[0, 0], [0, 0]]"
  by (simp add: bad_log_of_def mask_assign_def zeros_like_def less_mask_def)

lemma ex_fit_seq:
  "fit ex_ext ex_seq ex_epochs =
     Inr \<lparr>self_ch_type = Some ''eeg'', self_ch_subsets = [[''A'']],
          self_mappings = [[1, 0], [1, 0]],
          self_corr = [[Fin 1, Fin 1], [Fin 1, Fin (- 1)]],
          self_bad_log = [[0, 0], [0, 1]],
          self_bad_chs = [''B'']\<rparr>"
  by (simp add: fit_def ex_seq_simps ex_epochs_simps ex_type ex_subsets[of 1, folded ex_seq_def]
      ex_mappings ex_split_seq ex_rows_all ex_bad_log_seq ex_bad_seq del: One_nat_def)

lemma ex_fit_par:
  "fit ex_ext ex_par ex_epochs =
     Inr \<lparr>self_ch_type = Some ''eeg'', self_ch_subsets = [[''A'']],
          self_mappings = [[1, 0], [1, 0]],
          self_corr = [[Fin 1, Fin 1], [Fin 1, Fin 1]],
          self_bad_log = [[0, 0], [0, 0]],
          self_bad_chs = []\<rparr>"
  by (simp add: fit_def ex_par_simps ex_epochs_simps ex_type ex_subsets[of 2, folded ex_par_def]
      ex_mappings ex_split_par ex_rows_one ex_bad_log_par ex_bad_par del: One_nat_def)

section \<open>Monotonicity of the counts\<close>

lemma length_filter_mono:
  "(\<And>x. x \<in> set xs \<Longrightarrow> P x \<Longrightarrow> Q x) \<Longrightarrow> length (filter P xs) \<le> length (filter Q xs)"
  by (induction xs) auto

lemma below_mono: "below x m \<Longrightarrow> m \<le> m' \<Longrightarrow> below x m'"
  by (cases x) (auto simp: below_def)

lemma tally_mono: "m \<le> m' \<Longrightarrow> tally corr m j \<le> tally corr m' j"
  unfolding tally_def by (rule length_filter_mono) (rule below_mono)

section \<open>A flat sensor, evaluated\<close>

lemma ex_flat_simps:
  "ch_names ex_flat = [''A'', ''B'']" "length (segments ex_flat) = 1"
  "check_data ex_ext ex_flat"
  by (simp_all add: ch_names_def ex_flat_def ex_chs_def ex_ext_def)

lemma ex_flat_type: "get_channel_type (pick_types_keys ex_ext) ex_flat = Inr (Some ''eeg'')"
  by (simp add: get_channel_type_def channel_indices_by_type_def contains_ch_type_def
      ex_ext_def ex_flat_def ex_chs_def)

lemma ex_flat_subsets: "get_random_subsets ex_ext ex_seq ex_flat = [[''A'']]"
proof -
  have "n_samples_of ex_seq ex_flat = 1"
    by (rule half_of_two_channels) (simp_all add: ex_flat_simps ex_seq_simps)
  then show ?thesis
    by (simp add: get_random_subsets_def picks_of_def ch_names_def ex_ext_def
        ex_seq_def ex_cfg_def ex_flat_def ex_chs_def py_slice_to_def upt2)
qed

lemma ex_flat_mappings: "get_mappings ex_ext (Some ''eeg'') [[''A'']] ex_flat = Inr [[1, 0], [1, 0]]"
  by (simp add: get_mappings_def build_mapping_def pick_from_of_def set_columns_def
      enumerate_py_def ch_names_def ex_ext_def ex_flat_def ex_chs_def upt2 numeral_2_eq_2)

lemma ex_corr_flat: "compute_correlations 1 [[1, 0], [1, 0]] 1 [[1], [0]] = Inr [Fin 1, NaN]"
  by (simp add: compute_correlations_def predict_def np_dot_def np_T_def ravel_F_def
      reshape_F3_def sum_axis0_def multiply2_def np_sum_def np_median_def upt2)

lemma ex_flat_rows: "iterate_epochs 1 [[1, 0], [1, 0]] ex_flat [0] = Inr [[Fin 1, NaN]]"
  using ex_corr_flat
  by (simp add: iterate_epochs_def enumerate_py_def getitem_epochs_def ch_names_def
      ex_flat_def ex_chs_def)

lemma ex_flat_bad: "bad_chs_of [''A'', ''B''] [[Fin 1, NaN]] (3 / 4) (2 / 5) 1 = []"
  by (simp add: bad_chs_of_def bad_idx_of_def np_where_greater_def sum_axis0_real_def
      bad_log_of_def mask_assign_def zeros_like_def less_mask_def upt2 binary64_one binary64_two_fifths)

lemma ex_flat_split: "array_split [0..<1] 1 = Inr [[0]]"
  by (simp add: array_split_def)

lemma ex_flat_bad_log: "bad_log_of [[Fin 1, NaN]] (3 / 4) = [[0, 0]]"
  by (simp add: bad_log_of_def mask_assign_def zeros_like_def less_mask_def)

lemma ex_fit_flat:
  "fit ex_ext ex_seq ex_flat =
     Inr \<lparr>self_ch_type = Some ''eeg'', self_ch_subsets = [[''A'']],
          self_mappings = [[1, 0], [1, 0]],
          self_corr = [[Fin 1, NaN]],
          self_bad_log = [[0, 0]],
          self_bad_chs = []\<rparr>"
  by (simp add: fit_def ex_seq_simps ex_flat_simps ex_flat_type ex_flat_subsets
      ex_flat_mappings ex_flat_split ex_flat_rows ex_flat_bad_log ex_flat_bad del: One_nat_def)

lemma filter_not_nan:
  "filter (\<lambda>row. below (row ! j) m) corr =
   filter (\<lambda>row. row ! j \<noteq> NaN \<and> np_less (row ! j) (Fin m)) corr"
  by (rule filter_cong) (auto simp: np_less_below below_def)

section \<open>What a worker scores\<close>

lemma traverse_zip_fst:
  "length xs = length ys \<Longrightarrow> traverse (\<lambda>(i, _). g i) (zip xs ys) = traverse g xs"
  by (induction xs ys rule: list_induct2) (auto split: sum.splits)

text \<open>A worker's result depends on the length of its chunk only.\<close>

lemma iterate_epochs_positions:
  "iterate_epochs r mp e idxs = iterate_epochs r mp e [0..<length idxs]"
  by (simp add: iterate_epochs_def enumerate_py_def traverse_zip_fst)

section \<open>The scorer, entry by entry\<close>

lemma nth_concat_uniform:
  "list_all (\<lambda>xs. length xs = n) xss \<Longrightarrow> k < length xss \<Longrightarrow> t < n \<Longrightarrow>
   concat xss ! (t + n * k) = xss ! k ! t"
proof (induction xss arbitrary: k)
  case Nil
  then show ?case by simp
next
  case (Cons xs xss)
  show ?case
  proof (cases k)
    case 0
    with Cons.prems show ?thesis by (simp add: nth_append)
  next
    case (Suc k')
    with Cons.prems have "concat xss ! (t + n * k') = xss ! k' ! t"
      by (intro Cons.IH) simp_all
    with Cons.prems Suc show ?thesis by (simp add: nth_append add.assoc[symmetric])
  qed
qed

lemma stacked_index_less:
  assumes "c < n" "r < m"
  shows "c + n * r < n * (m::nat)"
proof -
  have "c + n * r < n * Suc r" using assms(1) by simp
  also have "\<dots> \<le> n * m" using assms(2) by (intro mult_le_mono2) simp
  finally show ?thesis .
qed

lemma ravel_F_nth:
  assumes "t < length y" "k < ncols"
  shows "ravel_F ncols y ! (t + length y * k) = y ! t ! k"
proof -
  have "list_all (\<lambda>xs. length xs = length y) (np_T ncols y)"
    by (simp add: np_T_def list_all_iff)
  from nth_concat_uniform[OF this, of k t] assms show ?thesis
    by (simp add: ravel_F_def np_T_def)
qed

lemma np_dot_nth:
  assumes "t < length a" "k < ncols"
  shows "np_dot ncols a b ! t ! k =
         sum_list (map (\<lambda>j. a ! t ! j * b ! j ! k) [0..<length (a ! t)])"
  using assms by (simp add: np_dot_def)

lemma operator_block_nth:
  assumes "length mappings = r_n * n" "r < r_n" "c < n"
  shows "operator_block n mappings r ! c = mappings ! (c + n * r)"
proof -
  have "c + n * r < n * r_n" using assms by (intro stacked_index_less)
  then have "r * n + c < length mappings" using assms(1) by (simp add: ac_simps)
  then show ?thesis
    using assms(3) by (simp add: operator_block_def ac_simps)
qed

lemma predict_Inr:
  assumes "wf_segment n_ch n_t data" "length mappings = r_n * n_ch"
    "list_all (\<lambda>row. length row = n_ch) mappings"
  shows "predict r_n mappings n_t data =
         Inr (reshape_F3 n_t n_ch r_n
                (ravel_F (length mappings) (np_dot (length mappings) (np_T n_t data) (np_T n_ch mappings))))"
  using assms by (simp add: predict_def wf_segment_def ac_simps)

lemma predict_entries:
  assumes "wf_segment n_ch n_t data" "length mappings = r_n * n_ch"
    "list_all (\<lambda>row. length row = n_ch) mappings"
  shows "predict r_n mappings n_t data =
         Inr (map (\<lambda>t. map (\<lambda>c. map (\<lambda>r. predicted (operator_block n_ch mappings r) data c t)
                                  [0..<r_n]) [0..<n_ch]) [0..<n_t])"
proof -
  let ?k = "length mappings"
  let ?y2 = "np_dot ?k (np_T n_t data) (np_T n_ch mappings)"
  let ?y = "reshape_F3 n_t n_ch r_n (ravel_F ?k ?y2)"
  have len_data: "length data = n_ch"
    using assms(1) by (simp_all add: wf_segment_def)
  have leny: "length ?y2 = n_t" by (simp add: np_dot_def np_T_def)
  have entry: "ravel_F ?k ?y2 ! (t + n_t * c + n_t * n_ch * r)
               = predicted (operator_block n_ch mappings r) data c t"
    if "t < n_t" "c < n_ch" "r < r_n" for t c r
  proof -
    have k: "c + n_ch * r < ?k" using that assms(2) by (simp add: stacked_index_less ac_simps)
    have "ravel_F ?k ?y2 ! (t + n_t * c + n_t * n_ch * r)
          = ravel_F ?k ?y2 ! (t + n_t * (c + n_ch * r))"
      by (simp add: algebra_simps)
    also have "\<dots> = ?y2 ! t ! (c + n_ch * r)"
      using ravel_F_nth[of t ?y2 "c + n_ch * r" ?k] that(1) k leny by simp
    also have "\<dots> = sum_list (map (\<lambda>j. np_T n_t data ! t ! j * np_T n_ch mappings ! j ! (c + n_ch * r))
                             [0..<n_ch])"
      using np_dot_nth[of t "np_T n_t data" "c + n_ch * r" ?k "np_T n_ch mappings"] that(1) k len_data
      by (simp add: np_T_def)
    also have "\<dots> = sum_list (map (\<lambda>j. data ! j ! t * mappings ! (c + n_ch * r) ! j) [0..<n_ch])"
      using that(1) k len_data
      by (intro arg_cong[where f = sum_list] map_cong) (simp_all add: np_T_def)
    also have "\<dots> = predicted (operator_block n_ch mappings r) data c t"
      using operator_block_nth[OF assms(2) that(3) that(2)] len_data
      by (simp add: predicted_def mult.commute)
    finally show ?thesis .
  qed
  have "?y = map (\<lambda>t. map (\<lambda>c. map (\<lambda>r. predicted (operator_block n_ch mappings r) data c t)
                                  [0..<r_n]) [0..<n_ch]) [0..<n_t]"
    unfolding reshape_F3_def
    by (intro map_cong refl) (simp add: entry)
  then show ?thesis using predict_Inr[OF assms] by simp
qed

lemma np_sum_Fin_aux: "foldl np_add (Fin a) (map Fin xs) = Fin (a + sum_list xs)"
  by (induction xs arbitrary: a) (simp_all add: add.assoc)

lemma np_sum_Fin: "np_sum (map Fin xs) = Fin (sum_list xs)"
  by (simp add: np_sum_def np_sum_Fin_aux)

lemma map2_same: "map2 f (map g xs) (map h xs) = map (\<lambda>x. f (g x) (h x)) xs"
  by (induction xs) auto

lemma multiply2_closed:
  "multiply2 (map (\<lambda>t. map (\<lambda>c. Fin (a t c)) cs) ts) (map (\<lambda>t. map (\<lambda>c. Fin (b t c)) cs) ts)
   = map (\<lambda>t. map (\<lambda>c. Fin (a t c * b t c)) cs) ts"
  by (simp add: multiply2_def map2_same)

lemma sum_axis0_closed:
  "sum_axis0 n (map (\<lambda>t. map (\<lambda>c. Fin (f t c)) [0..<n]) ts)
   = map (\<lambda>c. Fin (sum_list (map (\<lambda>t. f t c) ts))) [0..<n]"
proof -
  have "np_sum (map (\<lambda>row. row ! c) (map (\<lambda>t. map (\<lambda>c. Fin (f t c)) [0..<n]) ts))
        = Fin (sum_list (map (\<lambda>t. f t c) ts))" if "c < n" for c
  proof -
    have "map (\<lambda>row. row ! c) (map (\<lambda>t. map (\<lambda>c. Fin (f t c)) [0..<n]) ts)
          = map Fin (map (\<lambda>t. f t c) ts)"
      using that by simp
    then show ?thesis by (simp only: np_sum_Fin)
  qed
  then show ?thesis
    unfolding sum_axis0_def by (intro map_cong refl) simp
qed

lemma np_median_middle: "xs \<noteq> [] \<Longrightarrow> np_median xs = Fin (middle_median xs)"
  by (auto simp: np_median_def middle_median_def Let_def even_iff_mod_2_eq_zero)

lemma data_T_closed:
  assumes "wf_segment n_ch n_t data"
  shows "map (map Fin) (np_T n_t data) = map (\<lambda>t. map (\<lambda>c. Fin (data ! c ! t)) [0..<n_ch]) [0..<n_t]"
proof -
  have "length data = n_ch" using assms by (simp add: wf_segment_def)
  then have "map (\<lambda>row. row ! t) data = map (\<lambda>c. data ! c ! t) [0..<n_ch]" for t
    by (auto simp: list_eq_iff_nth_eq)
  then show ?thesis by (simp add: np_T_def comp_def)
qed

lemma sum_list_squares_nonneg: "0 \<le> sum_list (map (\<lambda>x. f x * f x) xs :: real list)"
  by (induction xs) auto

lemma sum_list_squares_zero:
  "sum_list (map (\<lambda>x. f x * f x) xs :: real list) = 0 \<Longrightarrow> x \<in> set xs \<Longrightarrow> f x = 0"
proof (induction xs)
  case Nil
  then show ?case by simp
next
  case (Cons y ys)
  have "0 \<le> f y * f y" "0 \<le> sum_list (map (\<lambda>x. f x * f x) ys)"
    by (simp_all add: sum_list_squares_nonneg)
  with Cons.prems(1) have "f y * f y = 0" "sum_list (map (\<lambda>x. f x * f x) ys) = 0"
    by (simp_all add: add_nonneg_eq_0_iff)
  with Cons.IH Cons.prems(2) show ?case by auto
qed

text \<open>When a norm is zero the series is zero, and so is the sum of the products.\<close>

lemma zero_norm_zero_product:
  assumes "sqrt (sum_list (map (\<lambda>t. a t * a t) ts)) * sqrt (sum_list (map (\<lambda>t. p t * p t) ts)) = 0"
  shows "sum_list (map (\<lambda>t. a t * p t) ts :: real list) = 0"
proof -
  have z: "a t * p t = 0" if t: "t \<in> set ts" for t
  proof -
    from assms consider "sum_list (map (\<lambda>t. a t * a t) ts) = 0"
      | "sum_list (map (\<lambda>t. p t * p t) ts) = 0"
      by auto
    then show ?thesis
    proof cases
      case 1
      then show ?thesis using sum_list_squares_zero[OF 1 t] by simp
    next
      case 2
      then show ?thesis using sum_list_squares_zero[OF 2 t] by simp
    qed
  qed
  have "sum_list (map (\<lambda>t. a t * p t) ts) = sum_list (map (\<lambda>t. 0 :: real) ts)"
    by (rule arg_cong[where f = sum_list], rule map_cong) (simp_all add: z)
  also have "\<dots> = 0" by simp
  finally show ?thesis .
qed

lemma cosine_similarity_closed:
  assumes "length actual = n"
  shows "cosine_similarity actual (map p [0..<n]) =
         np_divide (Fin (sum_list (map (\<lambda>t. actual ! t * p t) [0..<n])))
           (np_multiply (np_sqrt (Fin (sum_list (map (\<lambda>t. actual ! t * actual ! t) [0..<n]))))
                        (np_sqrt (Fin (sum_list (map (\<lambda>t. p t * p t) [0..<n])))))"
proof -
  have a: "actual = map (\<lambda>t. actual ! t) [0..<n]"
    using assms by (auto simp: list_eq_iff_nth_eq)
  have 1: "map2 (*) actual (map p [0..<n]) = map (\<lambda>t. actual ! t * p t) [0..<n]"
    by (subst a) (simp only: map2_same)
  have 2: "map (\<lambda>x. x * x) actual = map (\<lambda>t. actual ! t * actual ! t) [0..<n]"
    by (subst a) (simp add: comp_def)
  have 3: "map (\<lambda>x. x * x) (map p [0..<n]) = map (\<lambda>t. p t * p t) [0..<n]"
    by (simp add: comp_def)
  have 4: "\<not> sum_list (map (\<lambda>t. actual ! t * actual ! t) [0..<n]) < 0"
       "\<not> sum_list (map (\<lambda>t. p t * p t) [0..<n]) < 0"
    by (simp_all add: not_less sum_list_squares_nonneg)
  let ?norms = "sqrt (sum_list (map (\<lambda>t. actual ! t * actual ! t) [0..<n])) *
                sqrt (sum_list (map (\<lambda>t. p t * p t) [0..<n]))"
  show ?thesis
  proof (cases "?norms = 0")
    case True
    from zero_norm_zero_product[OF True]
    have "sum_list (map (\<lambda>t. actual ! t * p t) [0..<n]) = 0" .
    with True show ?thesis
      unfolding cosine_similarity_def 1 2 3 Let_def using 4 by simp
  next
    case False
    then show ?thesis
      unfolding cosine_similarity_def 1 2 3 Let_def using 4 by simp
  qed
qed

section \<open>Two stacked operators, evaluated\<close>

lemma ex_shapes:
  "wf_segment 2 2 ex_data" "length ex_stacked = 2 * 2"
  "list_all (\<lambda>row. length row = 2) ex_stacked"
  by (simp_all add: wf_segment_def ex_data_def ex_stacked_def)

lemma ex_blocks:
  "operator_block 2 ex_stacked 0 = [[1, 0], [2, 0]]"
  "operator_block 2 ex_stacked (Suc 0) = [[0, 10], [0, 20]]"
  by (simp_all add: operator_block_def ex_stacked_def)

lemma ex_predicted:
  "predicted [[1, 0], [2, 0]] ex_data 0 0 = 1"
  "predicted [[1, 0], [2, 0]] ex_data 0 (Suc 0) = 2"
  "predicted [[1, 0], [2, 0]] ex_data (Suc 0) 0 = 2"
  "predicted [[1, 0], [2, 0]] ex_data (Suc 0) (Suc 0) = 4"
  "predicted [[0, 10], [0, 20]] ex_data 0 0 = 30"
  "predicted [[0, 10], [0, 20]] ex_data 0 (Suc 0) = 40"
  "predicted [[0, 10], [0, 20]] ex_data (Suc 0) 0 = 60"
  "predicted [[0, 10], [0, 20]] ex_data (Suc 0) (Suc 0) = 80"
  by (simp_all add: predicted_def ex_data_def upt2)

lemma ex_predict:
  "predict 2 ex_stacked 2 ex_data = Inr [[[1, 30], [2, 60]], [[2, 40], [4, 80]]]"
  by (simp add: predict_entries[OF ex_shapes] upt2 ex_blocks ex_predicted)

section \<open>The sampler draws prefixes of permutations\<close>

text \<open>
  For a fraction in (0, 1] of fewer than \<open>2 ^ 53\<close> channels the rounded product lies
  between zero and the count, and so does its rounding to an integer.
\<close>

lemma n_samples_bounds:
  assumes "0 \<le> x" "x \<le> real n" "n < 2 ^ 53"
  shows "0 \<le> np_round (binary64 x) \<and> np_round (binary64 x) \<le> int n"
proof -
  from assms(3) have "real n < 2 ^ 53"
    by (metis of_nat_less_iff of_nat_numeral of_nat_power)
  with assms(1,2) have small: "\<bar>x\<bar> < 2 ^ 53" by simp
  have lo: "0 \<le> binary64 x" using assms(1) by (rule binary64_nonneg)
  have "binary64 x \<le> of_int (int n)"
    by (rule binary64_le_int[OF _ small]) (use assms(2) in simp)
  then have hi: "binary64 x \<le> of_int (int n)" .
  have "np_round (of_int 0) \<le> np_round (binary64 x)"
    by (rule np_round_mono) (use lo in simp)
  moreover have "np_round (binary64 x) \<le> np_round (of_int (int n))"
    by (rule np_round_mono) (rule hi)
  ultimately show ?thesis by (simp only: np_round_of_int)
qed

lemma py_slice_to_take:
  "0 \<le> n \<Longrightarrow> py_slice_to xs n = take (nat n) xs"
  by (simp add: py_slice_to_def)

lemma py_slice_to_prefix: "\<exists>k. py_slice_to xs n = take k xs"
  by (auto simp: py_slice_to_def)

lemma draw_picks_length: "length (draw_picks perm c ns k g) = k"
  by (induction k arbitrary: g) (auto split: prod.splits)

lemma draw_picks_elem:
  assumes "pick \<in> set (draw_picks perm c ns k g)"
  shows "\<exists>g'. pick = py_slice_to (fst (perm g' c)) ns"
  using assms
proof (induction k arbitrary: g)
  case 0
  then show ?case by simp
next
  case (Suc k)
  then show ?case by (auto split: prod.splits) (metis fst_conv)
qed

lemma perm_facts:
  assumes "valid_permutation perm"
  shows "length (fst (perm g n)) = n" "distinct (fst (perm g n))" "set (fst (perm g n)) = {0..<n}"
proof -
  from assms have m: "mset (fst (perm g n)) = mset [0..<n]" by (simp add: valid_permutation_def)
  show "length (fst (perm g n)) = n" using mset_eq_length[OF m] by simp
  show "distinct (fst (perm g n))" using mset_eq_imp_distinct_iff[OF m] by simp
  show "set (fst (perm g n)) = {0..<n}" using mset_eq_setD[OF m] by simp
qed

lemma picks_in_range:
  assumes "valid_permutation (permutation ext)" "pick \<in> set (picks_of ext self e)"
  shows "set pick \<subseteq> {0..<length (ch_names e)} \<and> distinct pick"
proof -
  from assms(2) obtain g' where
    p: "pick = py_slice_to (fst (permutation ext g' (length (ch_names e)))) (n_samples_of self e)"
    unfolding picks_of_def by (blast dest: draw_picks_elem)
  obtain k where "pick = take k (fst (permutation ext g' (length (ch_names e))))"
    using p py_slice_to_prefix by metis
  then show ?thesis
    using perm_facts(2,3)[OF assms(1), of g' "length (ch_names e)"]
    by (auto dest: in_set_takeD)
qed

section \<open>Four sensors, sampled\<close>

lemma mset_rotate_eq: "mset (rotate n xs) = mset xs"
proof -
  let ?k = "n mod length xs"
  have "mset (rotate n xs) = mset (drop ?k xs) + mset (take ?k xs)"
    by (simp add: rotate_drop_take)
  also have "\<dots> = mset (take ?k xs) + mset (drop ?k xs)"
    by (simp add: union_commute)
  also have "\<dots> = mset xs"
    by (simp flip: mset_append)
  finally show ?thesis .
qed

lemma ex_ext_valid: "valid_permutation (permutation ex_ext)"
  by (simp add: valid_permutation_def ex_ext_def mset_rotate_eq del: mset_upt)

lemma ex_cfg3_simps:
  "n_resample ex_cfg3 = Suc (Suc (Suc 0))" "min_channels ex_cfg3 = 3 / 8" "random_state ex_cfg3 = 0"
  by (simp_all add: ex_cfg3_def eval_nat_numeral)

lemma ex_names4: "ch_names ex_epochs4 = [''A'', ''B'', ''C'', ''D'']"
  by (simp add: ch_names_def ex_epochs4_def ex_chs4_def)

lemma ex_n_samples4: "n_samples_of ex_cfg3 ex_epochs4 = 2"
  by (simp add: n_samples_of_def ex_names4 ex_cfg3_simps binary64_numeral binary64_three_halves
      np_round_halves)

lemma ex_perms4:
  "permutation ex_ext 0 (Suc (Suc (Suc (Suc 0))))
     = ([0, Suc 0, Suc (Suc 0), Suc (Suc (Suc 0))], Suc 0)"
  "permutation ex_ext (Suc 0) (Suc (Suc (Suc (Suc 0))))
     = ([Suc 0, Suc (Suc 0), Suc (Suc (Suc 0)), 0], Suc (Suc 0))"
  "permutation ex_ext (Suc (Suc 0)) (Suc (Suc (Suc (Suc 0))))
     = ([Suc (Suc 0), Suc (Suc (Suc 0)), 0, Suc 0], Suc (Suc (Suc 0)))"
  by (simp_all add: ex_ext_def)

lemma ex_picks4:
  "picks_of ex_ext ex_cfg3 ex_epochs4
     = [[0, Suc 0], [Suc 0, Suc (Suc 0)], [Suc (Suc 0), Suc (Suc (Suc 0))]]"
  by (simp add: picks_of_def ex_n_samples4 ex_names4 ex_cfg3_simps ex_perms4 py_slice_to_def
      eval_nat_numeral)

lemma ex_subsets4:
  "get_random_subsets ex_ext ex_cfg3 ex_epochs4 = [[''A'', ''B''], [''B'', ''C''], [''C'', ''D'']]"
  by (simp add: get_random_subsets_def ex_picks4 ex_names4)

section \<open>Names and indices\<close>

lemma py_index_nth:
  "distinct xs \<Longrightarrow> i < length xs \<Longrightarrow> py_index xs (xs ! i) = Inr i"
proof (induction xs arbitrary: i)
  case Nil
  then show ?case by simp
next
  case (Cons x xs)
  then show ?case by (cases i) auto
qed

lemma pick_from_of_names:
  assumes "distinct names" "set pick \<subseteq> {0..<length names}"
  shows "pick_from_of names (map (\<lambda>p. names ! p) pick) = Inr pick"
proof -
  have "traverse (py_index names) (map (\<lambda>p. names ! p) pick) = Inr pick"
    using assms(2)
  proof (induction pick)
    case Nil
    then show ?case by simp
  next
    case (Cons p pick)
    then show ?case by (simp add: py_index_nth[OF assms(1)])
  qed
  then show ?thesis by (simp add: pick_from_of_def)
qed

section \<open>The blocks of the stacked operator\<close>

lemma fold_update_length:
  "length (fold (\<lambda>(k, j) r. r[j := f k]) kjs row) = length row"
  by (induction kjs arbitrary: row) (auto split: prod.splits)

lemma fold_update_other:
  "j \<notin> snd ` set kjs \<Longrightarrow> fold (\<lambda>(k, j) r. r[j := f k]) kjs row ! j = row ! j"
  by (induction kjs arbitrary: row) (auto split: prod.splits)

lemma snd_enumerate_py: "snd ` set (enumerate_py xs) \<subseteq> set xs"
  by (auto simp: enumerate_py_def dest: set_zip_rightD)

lemma set_columns_Inr:
  assumes "set_columns mapping pick_from w = Inr m" "i < length mapping"
  shows "length m = length mapping" "length (m ! i) = length (mapping ! i)"
    "j \<notin> set pick_from \<Longrightarrow> m ! i ! j = mapping ! i ! j"
proof -
  let ?upd = "\<lambda>(row, wrow). fold (\<lambda>(k, j) r. r[j := wrow ! k]) (enumerate_py pick_from) row"
  from assms(1) have m: "m = map ?upd (zip mapping w)" and lw: "length w = length mapping"
    by (auto simp: set_columns_def split: if_splits)
  show "length m = length mapping" by (simp add: m lw)
  have mi: "m ! i = fold (\<lambda>(k, j) r. r[j := w ! i ! k]) (enumerate_py pick_from) (mapping ! i)"
    using assms(2) lw by (simp add: m)
  show "length (m ! i) = length (mapping ! i)"
    unfolding mi by (rule fold_update_length)
  show "m ! i ! j = mapping ! i ! j" if "j \<notin> set pick_from"
    unfolding mi using that snd_enumerate_py[of pick_from]
    by (intro fold_update_other) blast
qed

lemma py_index_Inr: "py_index xs x = Inr i \<Longrightarrow> i < length xs \<and> xs ! i = x"
  by (induction xs arbitrary: i) (auto split: if_splits sum.splits)

lemma pick_from_of_Inr:
  assumes "pick_from_of names ch_subset = Inr pick_from" "j \<in> set pick_from"
  shows "j < length names \<and> names ! j \<in> set ch_subset"
proof -
  from assms(1) have "list_all2 (\<lambda>x i. py_index names x = Inr i) ch_subset pick_from"
    by (simp add: pick_from_of_def traverse_Inr_iff)
  then have len: "length ch_subset = length pick_from"
    and all: "\<And>i. i < length pick_from \<Longrightarrow> py_index names (ch_subset ! i) = Inr (pick_from ! i)"
    by (simp_all add: list_all2_conv_all_nth)
  from assms(2) obtain i where i: "i < length pick_from" "pick_from ! i = j"
    by (auto simp: in_set_conv_nth)
  from all[OF i(1)] i(2) have "py_index names (ch_subset ! i) = Inr j" by simp
  from py_index_Inr[OF this] have "j < length names" "names ! j = ch_subset ! i" by simp_all
  moreover have "ch_subset ! i \<in> set ch_subset" using i(1) len by simp
  ultimately show ?thesis by simp
qed


lemma build_mapping_cases:
  assumes "build_mapping ext cht inst ch_subset = Inr m"
  obtains pick_from w where
      "pick_from_of (ch_names inst) ch_subset = Inr pick_from"
      "set_columns (replicate (length (ch_names inst)) (replicate (length (ch_names inst)) 0))
         pick_from w = Inr m"
  | pick_from where
      "pick_from_of (ch_names inst) ch_subset = Inr pick_from"
      "m = replicate (length (ch_names inst)) (replicate (length (ch_names inst)) 0)"
proof (cases "pick_from_of (ch_names inst) ch_subset")
  case (Inl err)
  with assms show ?thesis by (simp add: build_mapping_def)
next
  case (Inr pick_from)
  let ?n = "length (ch_names inst)"
  let ?z = "replicate ?n (replicate ?n (0::real))"
  show ?thesis
  proof (cases "cht = Some ''meg''")
    case True
    with assms Inr have
      "set_columns ?z pick_from (fast_map_meg_channels ext inst pick_from [0..<?n]) = Inr m"
      by (simp add: build_mapping_def Let_def)
    then show ?thesis by (rule that(1)[OF Inr])
  next
    case False
    note not_meg = this
    show ?thesis
    proof (cases "cht = Some ''eeg''")
      case True
      with assms Inr not_meg have
        "set_columns ?z pick_from
           (make_interpolation_matrix ext
              (map (\<lambda>p. map (\<lambda>ch. take 3 (loc ch)) (chs inst) ! p) pick_from)
              (map (\<lambda>p. map (\<lambda>ch. take 3 (loc ch)) (chs inst) ! p) [0..<?n])) = Inr m"
        by (cases "pick_from = []") (simp_all add: build_mapping_def Let_def)
      then show ?thesis by (rule that(1)[OF Inr])
    next
      case False
      with assms Inr not_meg have "m = ?z" by (simp add: build_mapping_def Let_def)
      then show ?thesis by (rule that(2)[OF Inr])
    qed
  qed
qed


lemma set_columns_length:
  "set_columns mapping pick_from w = Inr m \<Longrightarrow> length m = length mapping"
  by (auto simp: set_columns_def split: if_splits)

lemma build_mapping_Inr:
  assumes "build_mapping ext cht inst ch_subset = Inr m"
  shows "\<exists>pick_from. pick_from_of (ch_names inst) ch_subset = Inr pick_from \<and>
           length m = length (ch_names inst) \<and>
           (\<forall>i < length (ch_names inst).
              length (m ! i) = length (ch_names inst) \<and>
              (\<forall>j < length (ch_names inst). j \<notin> set pick_from \<longrightarrow> m ! i ! j = 0))"
proof -
  let ?n = "length (ch_names inst)"
  let ?z = "replicate ?n (replicate ?n (0::real))"
  from assms show ?thesis
  proof (cases rule: build_mapping_cases)
    case (1 pick_from w)
    have "length m = ?n" using set_columns_length[OF 1(2)] by simp
    moreover have "length (m ! i) = ?n" if "i < ?n" for i
      using set_columns_Inr(2)[OF 1(2), of i] that by simp
    moreover have "m ! i ! j = 0" if "i < ?n" "j < ?n" "j \<notin> set pick_from" for i j
      using set_columns_Inr(3)[OF 1(2), of i j] that by simp
    ultimately show ?thesis using 1(1) by blast
  next
    case (2 pick_from)
    then show ?thesis by simp
  qed
qed

lemma length_concat_uniform:
  "list_all (\<lambda>xs. length xs = n) xss \<Longrightarrow> length (concat xss) = length xss * n"
  by (induction xss) auto

lemma ex_mappings2:
  "get_mappings ex_ext (Some ''eeg'') [[''A''], [''B'']] ex_epochs
     = Inr [[1, 0], [1, 0], [0, 1], [0, 1]]"
  by (simp add: get_mappings_def build_mapping_def pick_from_of_def set_columns_def
      enumerate_py_def ch_names_def ex_ext_def ex_epochs_def ex_chs_def upt2 numeral_2_eq_2)

section \<open>The validation of the channel types\<close>

lemma get_channel_type_mixed:
  assumes "contains_ch_type e ''meg''" "contains_ch_type e ''eeg''"
  shows "\<exists>err. get_channel_type keys e = Inl err"
  using assms by (simp add: get_channel_type_def Let_def)

lemma get_channel_type_other:
  assumes "\<not> contains_ch_type e ''meg''" "\<not> contains_ch_type e ''eeg''"
    and "ch \<in> set (chs e)" "kind ch \<in> set keys" "kind ch \<noteq> ''meg''"
  shows "\<exists>err. get_channel_type keys e = Inl err"
proof -
  let ?inv = "filter (\<lambda>key. key \<notin> set [''mag'', ''grad'', ''eeg''] \<and> contains_ch_type e key)
                (map fst (channel_indices_by_type keys e))"
  have keys: "map fst (channel_indices_by_type keys e) = keys"
    by (simp add: channel_indices_by_type_def comp_def)
  have present: "contains_ch_type e (kind ch)"
    using assms(3,5) by (simp add: contains_ch_type_def)
  have "kind ch \<notin> set [''mag'', ''grad'', ''eeg'']"
  proof
    assume "kind ch \<in> set [''mag'', ''grad'', ''eeg'']"
    then consider "kind ch = ''mag''" | "kind ch = ''grad''" | "kind ch = ''eeg''" by auto
    then show False
    proof cases
      case 1
      with assms(3) have "''mag'' \<in> set (map kind (chs e))" by force
      with assms(1) show False by (simp add: contains_ch_type_def)
    next
      case 2
      with assms(3) have "''grad'' \<in> set (map kind (chs e))" by force
      with assms(1) show False by (simp add: contains_ch_type_def)
    next
      case 3
      with assms(3) have "''eeg'' \<in> set (map kind (chs e))" by force
      with assms(2) show False by (simp add: contains_ch_type_def)
    qed
  qed
  with present assms(4) have mem: "kind ch \<in> set ?inv" by (simp add: keys)
  have "?inv \<noteq> []"
  proof
    assume emp: "?inv = []"
    from mem show False unfolding emp by simp
  qed
  then have "0 < length ?inv" by (simp only: length_greater_0_conv not_False_eq_True)
  then show ?thesis
    unfolding get_channel_type_def Let_def by (simp only: if_True) blast
qed

lemma get_channel_type_listed:
  assumes "listed_channels keys e"
    and "\<not> contains_ch_type e ''meg''" "\<not> contains_ch_type e ''eeg''"
  shows "\<exists>err. get_channel_type keys e = Inl err"
proof -
  from assms(1) obtain ch where ch: "ch \<in> set (chs e)"
    by (cases "chs e") (auto simp: listed_channels_def)
  with assms(1) have "kind ch \<in> set keys" "kind ch \<noteq> ''meg''"
    by (auto simp: listed_channels_def list_all_iff)
  with assms(2,3) ch show ?thesis by (rule get_channel_type_other)
qed

lemma fit_validation_error:
  assumes "get_channel_type (pick_types_keys ext) e = Inl err"
  shows "fit ext self e = Inl (if check_data ext e then err else CheckDataError)"
  using assms by (simp add: fit_def)


lemma ex_mixed_fit: "fit ex_ext ex_seq ex_mixed = Inl MixedChannelTypes"
  by (simp add: fit_def get_channel_type_def channel_indices_by_type_def contains_ch_type_def
      ex_ext_def ex_mixed_def)

lemma ex_eog_fit: "fit ex_ext ex_seq ex_eog = Inl (InvalidChannelTypes [''eog''])"
  by (simp add: fit_def get_channel_type_def channel_indices_by_type_def contains_ch_type_def
      ex_ext_def ex_eog_def)

section \<open>The rows of the workers\<close>

text \<open>The rows of a worker are the scores of the first segments of the recording, as
  many as its chunk is long, whichever indices the chunk holds.\<close>

lemma iterate_epochs_rows:
  assumes "iterate_epochs r mp e idxs = Inr rows"
  shows "length idxs \<le> length (segments e) \<and>
         list_all2 (\<lambda>data row. compute_correlations r mp (n_times e) data = Inr row)
           (take (length idxs) (segments e)) rows"
proof -
  let ?g = "\<lambda>idx. case getitem_epochs e idx of
                Inl err \<Rightarrow> Inl err
              | Inr data \<Rightarrow>
                  (case compute_correlations r mp (n_times e) data of
                     Inl err \<Rightarrow> Inl err
                   | Inr corr \<Rightarrow> if length corr = length (ch_names e) then Inr corr else Inl ShapeError)"
  have "iterate_epochs r mp e idxs = traverse ?g [0..<length idxs]"
    by (simp add: iterate_epochs_def enumerate_py_def traverse_zip_fst)
  with assms have t: "traverse ?g [0..<length idxs] = Inr rows" by simp
  have len: "length rows = length idxs" using traverse_length[OF t] by simp
  have each: "i < length (segments e) \<and>
              compute_correlations r mp (n_times e) (segments e ! i) = Inr (rows ! i)"
    if "i < length idxs" for i
  proof -
    from traverse_nth[OF t, of i] that have "?g i = Inr (rows ! i)" by simp
    then show ?thesis
      by (auto simp: getitem_epochs_def split: if_splits sum.splits)
  qed
  have le: "length idxs \<le> length (segments e)"
  proof (cases "length idxs")
    case 0
    then show ?thesis by simp
  next
    case (Suc k)
    with each[of k] show ?thesis by simp
  qed
  have "list_all2 (\<lambda>data row. compute_correlations r mp (n_times e) data = Inr row)
          (take (length idxs) (segments e)) rows"
    using len le each by (intro list_all2_all_nthI) simp_all
  with le show ?thesis by simp
qed

text \<open>With one worker the rows are the scores of the segments, in their order.\<close>

lemma fit_single_worker_rows:
  assumes "fit ext self e = Inr st" "n_jobs self = 1"
  shows "list_all2 (\<lambda>data row.
            compute_correlations (n_resample self) (self_mappings st) (n_times e) data = Inr row)
           (segments e) (self_corr st)"
proof -
  from assms(1) obtain cht :: "string option" and mappings chunks corrs where
    sp: "array_split [0..<length (segments e)] (n_jobs self) = Inr chunks" and
    tr: "traverse (iterate_epochs (n_resample self) mappings e) chunks = Inr corrs" and
    st: "self_corr st = concat corrs" "self_mappings st = mappings"
    by (elim fit_InrD) simp
  from sp assms(2) have chunks: "chunks = [[0..<length (segments e)]]"
    by (simp add: array_split_one)
  with tr obtain rows where
    rows: "iterate_epochs (n_resample self) mappings e [0..<length (segments e)] = Inr rows"
    and corrs: "corrs = [rows]"
    by (auto split: sum.splits)
  from iterate_epochs_rows[OF rows] st corrs show ?thesis by simp
qed

section \<open>When the builder returns\<close>

lemma py_index_found: "x \<in> set xs \<Longrightarrow> \<exists>i. py_index xs x = Inr i"
  by (induction xs) auto

lemma traverse_returns:
  "(\<And>x. x \<in> set xs \<Longrightarrow> \<exists>y. f x = Inr y) \<Longrightarrow> \<exists>ys. traverse f xs = Inr ys"
proof (induction xs)
  case Nil
  then show ?case by simp
next
  case (Cons x xs)
  from Cons.prems[of x] obtain y where y: "f x = Inr y" by auto
  from Cons.IH Cons.prems obtain ys where ys: "traverse f xs = Inr ys" by auto
  from y ys show ?case by simp
qed

text \<open>
  When the kernels return one row for each target and one column for each source, the
  builder returns for every non-empty list of non-empty subsets of the channel names.
\<close>

lemma get_mappings_returns:
  assumes "ch_subsets \<noteq> []"
    and "\<And>s. s \<in> set ch_subsets \<Longrightarrow> s \<noteq> [] \<and> set s \<subseteq> set (ch_names inst)"
    and "\<And>src tgt. length (make_interpolation_matrix ext src tgt) = length tgt \<and>
           list_all (\<lambda>row. length row = length src) (make_interpolation_matrix ext src tgt)"
    and "\<And>src tgt. length (fast_map_meg_channels ext inst src tgt) = length tgt \<and>
           list_all (\<lambda>row. length row = length src) (fast_map_meg_channels ext inst src tgt)"
  shows "\<exists>m. get_mappings ext cht ch_subsets inst = Inr m"
proof -
  let ?n = "length (ch_names inst)"
  let ?z = "replicate ?n (replicate ?n (0::real))"
  have one: "\<exists>m. build_mapping ext cht inst s = Inr m" if s: "s \<in> set ch_subsets" for s
  proof -
    from assms(2)[OF s] have ne: "s \<noteq> []" and sub: "set s \<subseteq> set (ch_names inst)" by simp_all
    from sub have "\<exists>pf. traverse (py_index (ch_names inst)) s = Inr pf"
      by (intro traverse_returns py_index_found) blast
    then obtain pf where pf: "pick_from_of (ch_names inst) s = Inr pf"
      by (auto simp: pick_from_of_def)
    have pf_ne: "pf \<noteq> []"
      using pf ne traverse_length[of "py_index (ch_names inst)" s pf]
      by (auto simp: pick_from_of_def)
    have rng: "list_all (\<lambda>row. list_all (\<lambda>j. j < length row) pf) ?z"
      using pick_from_of_Inr[OF pf] by (auto simp: list_all_iff)
    have sc: "\<exists>m. set_columns ?z pf w = Inr m"
      if "length w = ?n" "list_all (\<lambda>row. length row = length pf) w" for w
      using that pf_ne rng by (simp add: set_columns_def)
    let ?pos = "map (\<lambda>ch. take 3 (loc ch)) (chs inst)"
    let ?eeg = "make_interpolation_matrix ext (map (\<lambda>p. ?pos ! p) pf)
                  (map (\<lambda>p. ?pos ! p) [0..<?n])"
    let ?meg = "fast_map_meg_channels ext inst pf [0..<?n]"
    have "\<exists>m. set_columns ?z pf ?eeg = Inr m"
      using assms(3)[of "map (\<lambda>p. ?pos ! p) pf" "map (\<lambda>p. ?pos ! p) [0..<?n]"]
      by (intro sc) simp_all
    moreover have "\<exists>m. set_columns ?z pf ?meg = Inr m"
      using assms(4)[of pf "[0..<?n]"] by (intro sc) simp_all
    ultimately show ?thesis
      unfolding build_mapping_def Let_def pf sum.case
      using pf_ne by simp
  qed
  then obtain ms where ms: "traverse (build_mapping ext cht inst) ch_subsets = Inr ms"
    using traverse_returns[of ch_subsets "build_mapping ext cht inst"] by blast
  with assms(1) have "ms \<noteq> []" using traverse_length[OF ms] by auto
  with ms show ?thesis by (simp add: get_mappings_def)
qed

section \<open>Three segments at the boundary of the classifier\<close>

lemma upt3: "[0..<3] = [0, Suc 0, Suc (Suc 0)]"
  by (simp add: upt_conv_Cons numeral_3_eq_3)

lemma ex_third_simps:
  "n_resample ex_third = 1" "min_corr ex_third = 1"
  "unbroken_time ex_third = 6004799503160661 / 18014398509481984"
  "n_jobs ex_third = 1" "min_channels ex_third = 1 / 2" "random_state ex_third = 0"
  by (simp_all add: ex_third_def)

lemma ex_epochs3_simps:
  "ch_names ex_epochs3 = [''A'', ''B'']" "length (segments ex_epochs3) = 3"
  "check_data ex_ext ex_epochs3"
  by (simp_all add: ch_names_def ex_epochs3_def ex_chs_def ex_ext_def)

lemma ex_type3: "get_channel_type (pick_types_keys ex_ext) ex_epochs3 = Inr (Some ''eeg'')"
  by (simp add: get_channel_type_def channel_indices_by_type_def contains_ch_type_def
      ex_ext_def ex_epochs3_def ex_chs_def)

lemma ex_subsets3: "get_random_subsets ex_ext ex_third ex_epochs3 = [[''A'']]"
proof -
  have "n_samples_of ex_third ex_epochs3 = 1"
    by (rule half_of_two_channels) (simp_all add: ex_epochs3_simps ex_third_simps)
  then show ?thesis
    by (simp add: get_random_subsets_def picks_of_def ch_names_def ex_ext_def
        ex_third_def ex_epochs3_def ex_chs_def py_slice_to_def upt2)
qed

lemma ex_mappings3: "get_mappings ex_ext (Some ''eeg'') [[''A'']] ex_epochs3 = Inr [[1, 0], [1, 0]]"
  by (simp add: get_mappings_def build_mapping_def pick_from_of_def set_columns_def
      enumerate_py_def ch_names_def ex_ext_def ex_epochs3_def ex_chs_def upt2 numeral_2_eq_2)

lemma ex_split3: "array_split [0..<3] 1 = Inr [[0, 1, 2]]"
  by (simp add: array_split_def upt3)

lemma ex_rows3:
  "iterate_epochs 1 [[1, 0], [1, 0]] ex_epochs3 [0, 1, 2]
     = Inr [[Fin 1, Fin 1], [Fin 1, Fin 1], [Fin 1, Fin (- 1)]]"
  using ex_corr_seg0 ex_corr_seg1
  by (simp add: iterate_epochs_def enumerate_py_def getitem_epochs_def ch_names_def
      ex_epochs3_def ex_chs_def upt3)

lemma ex_bad_log3:
  "bad_log_of [[Fin 1, Fin 1], [Fin 1, Fin 1], [Fin 1, Fin (- 1)]] 1 = [[0, 0], [0, 0], [0, 1]]"
  by (simp add: bad_log_of_def mask_assign_def zeros_like_def less_mask_def)

lemma ex_bad3:
  "bad_chs_of [''A'', ''B''] [[Fin 1, Fin 1], [Fin 1, Fin 1], [Fin 1, Fin (- 1)]] 1
     (6004799503160661 / 18014398509481984) 3 = []"
  by (simp add: bad_chs_of_def bad_idx_of_def np_where_greater_def sum_axis0_real_def
      bad_log_of_def mask_assign_def zeros_like_def less_mask_def upt2 binary64_numeral
      binary64_third_times_three)

lemma ex_fit_third:
  "fit ex_ext ex_third ex_epochs3 =
     Inr \<lparr>self_ch_type = Some ''eeg'', self_ch_subsets = [[''A'']],
          self_mappings = [[1, 0], [1, 0]],
          self_corr = [[Fin 1, Fin 1], [Fin 1, Fin 1], [Fin 1, Fin (- 1)]],
          self_bad_log = [[0, 0], [0, 0], [0, 1]],
          self_bad_chs = []\<rparr>"
  by (simp add: fit_def ex_third_simps ex_epochs3_simps ex_type3 ex_subsets3
      ex_mappings3 ex_split3 ex_rows3 ex_bad_log3 ex_bad3 del: One_nat_def)

section \<open>Ten sensors and the double nearest to one twentieth\<close>

lemma ex_names10:
  "ch_names ex_epochs10 = [''S0'', ''S1'', ''S2'', ''S3'', ''S4'', ''S5'', ''S6'', ''S7'', ''S8'', ''S9'']"
  by (simp add: ch_names_def ex_epochs10_def ex_chs10_def)

lemma ex_twentieth_simps:
  "n_resample ex_twentieth = Suc (Suc 0)"
  "min_channels ex_twentieth = 3602879701896397 / 72057594037927936"
  "random_state ex_twentieth = 0"
  by (simp_all add: ex_twentieth_def numeral_2_eq_2)

lemma ex_n_samples10: "n_samples_of ex_twentieth ex_epochs10 = 0"
  by (simp add: n_samples_of_def ex_names10 ex_twentieth_simps binary64_numeral
      binary64_twentieth_times_ten np_round_halves)

lemma ex_picks10: "picks_of ex_ext ex_twentieth ex_epochs10 = [[], []]"
  by (simp add: picks_of_def ex_n_samples10 ex_twentieth_simps py_slice_to_def ex_ext_def)

lemma ex_subsets10: "get_random_subsets ex_ext ex_twentieth ex_epochs10 = [[], []]"
  by (simp add: get_random_subsets_def ex_picks10)

section \<open>Two rational scores\<close>

lemma sqrt_25: "sqrt 25 = 5"
  by (rule real_sqrt_unique) simp_all

lemma sqrt_100: "sqrt 100 = 10"
  by (rule real_sqrt_unique) simp_all

lemma ex_shapes2:
  "wf_segment 2 2 ex_data2" "length ex_stacked2 = 2 * 2"
  "list_all (\<lambda>row. length row = 2) ex_stacked2"
  by (simp_all add: wf_segment_def ex_data2_def ex_stacked2_def)

lemma ex_blocks2:
  "operator_block 2 ex_stacked2 0 = [[1, 0], [1, 0]]"
  "operator_block 2 ex_stacked2 (Suc 0) = [[3, 0], [3, 0]]"
  by (simp_all add: operator_block_def ex_stacked2_def)

lemma ex_predicted2:
  "predicted [[1, 0], [1, 0]] ex_data2 0 0 = 3"
  "predicted [[1, 0], [1, 0]] ex_data2 0 (Suc 0) = 4"
  "predicted [[1, 0], [1, 0]] ex_data2 (Suc 0) 0 = 3"
  "predicted [[1, 0], [1, 0]] ex_data2 (Suc 0) (Suc 0) = 4"
  "predicted [[3, 0], [3, 0]] ex_data2 0 0 = 9"
  "predicted [[3, 0], [3, 0]] ex_data2 0 (Suc 0) = 12"
  "predicted [[3, 0], [3, 0]] ex_data2 (Suc 0) 0 = 9"
  "predicted [[3, 0], [3, 0]] ex_data2 (Suc 0) (Suc 0) = 12"
  by (simp_all add: predicted_def ex_data2_def upt2)

lemma ex_pooled2:
  "pooled 2 2 ex_stacked2 ex_data2 0 0 = 6"
  "pooled 2 2 ex_stacked2 ex_data2 0 (Suc 0) = 8"
  "pooled 2 2 ex_stacked2 ex_data2 (Suc 0) 0 = 6"
  "pooled 2 2 ex_stacked2 ex_data2 (Suc 0) (Suc 0) = 8"
  by (simp_all add: pooled_def middle_median_def upt2 ex_blocks2 ex_predicted2)

lemma ex_cosine2:
  "cosine_similarity [3, 4] [6, 8] = Fin 1"
  "cosine_similarity [5, 0] [6, 8] = Fin (3 / 5)"
  by (simp_all add: cosine_similarity_def sqrt_25 sqrt_100)

lemma ex_flat_shapes:
  "wf_segment 2 1 [[1], [0]]" "length [[1, 0], [1, 0 :: real]] = 1 * 2"
  "list_all (\<lambda>row. length row = 2) [[1, 0], [1, 0 :: real]]"
  by (simp_all add: wf_segment_def)

lemma ex_flat_pooled:
  "pooled (Suc 0) 2 [[1, 0], [1, 0]] [[1], [0]] 0 0 = 1"
  "pooled (Suc 0) 2 [[1, 0], [1, 0]] [[1], [0]] (Suc 0) 0 = 1"
  by (simp_all add: pooled_def middle_median_def operator_block_def predicted_def upt2)

lemma ex_flat_cosine:
  "cosine_similarity [1] [1] = Fin 1" "cosine_similarity [0] [1] = NaN"
  by (simp_all add: cosine_similarity_def)

section \<open>The number of workers\<close>

text \<open>
  Claim C1 says that the correlation matrix and the list of bad channels of a fit do not
  depend on \<open>n_jobs\<close>. The two configurations below differ in \<open>n_jobs\<close> only. With
  one worker the chunk is the whole index range, and the rows are the scores of
  segments 0 and 1: sensor B is flagged. With two workers the chunks are \<open>[0]\<close> and
  \<open>[1]\<close>, each worker scores the segment at position 0 of the recording, the second
  row repeats the first and no sensor is flagged.
\<close>

theorem fit_depends_on_n_jobs:
  "ex_par = ex_seq\<lparr>n_jobs := 2\<rparr> \<and>
   fit ex_ext ex_seq ex_epochs =
     Inr \<lparr>self_ch_type = Some ''eeg'', self_ch_subsets = [[''A'']],
          self_mappings = [[1, 0], [1, 0]],
          self_corr = [[Fin 1, Fin 1], [Fin 1, Fin (- 1)]],
          self_bad_log = [[0, 0], [0, 1]],
          self_bad_chs = [''B'']\<rparr> \<and>
   fit ex_ext ex_par ex_epochs =
     Inr \<lparr>self_ch_type = Some ''eeg'', self_ch_subsets = [[''A'']],
          self_mappings = [[1, 0], [1, 0]],
          self_corr = [[Fin 1, Fin 1], [Fin 1, Fin 1]],
          self_bad_log = [[0, 0], [0, 0]],
          self_bad_chs = []\<rparr>"
  using ex_fit_seq ex_fit_par by (simp add: ex_par_def ex_seq_def ex_cfg_def)

section \<open>The consensus scores\<close>

text \<open>
  Claim C2. For a segment of \<open>C\<close> sensors and \<open>T\<close> samples and a stacked operator of
  \<open>R * C\<close> rows and \<open>C\<close> columns, the product reshaped in Fortran order to
  (\<open>T\<close>, \<open>C\<close>, \<open>R\<close>) is computed without error, and its entry (\<open>t\<close>, \<open>c\<close>,
  \<open>r\<close>) is the prediction of sensor \<open>c\<close> at time \<open>t\<close> by block \<open>r\<close> of the stacked
  operator.
\<close>

theorem reshape_recovers_predictions:
  assumes "wf_segment n_ch n_t data" "length mappings = r_n * n_ch"
    "list_all (\<lambda>row. length row = n_ch) mappings"
  shows "\<exists>y. predict r_n mappings n_t data = Inr y \<and>
           (\<forall>t < n_t. \<forall>c < n_ch. \<forall>r < r_n.
              y ! t ! c ! r = predicted (operator_block n_ch mappings r) data c t)"
  using predict_entries[OF assms] by simp

theorem reshape_recovers_predictions_witness:
  "wf_segment 2 2 ex_data \<and> length ex_stacked = 2 * 2 \<and>
   list_all (\<lambda>row. length row = 2) ex_stacked \<and>
   predict 2 ex_stacked 2 ex_data = Inr [[[1, 30], [2, 60]], [[2, 40], [4, 80]]] \<and>
   [[[1, 30], [2, 60]], [[2, 40], [4, 80]]] ! 1 ! 0 ! 1
     = predicted (operator_block 2 ex_stacked 1) ex_data 0 1 \<and>
   predicted (operator_block 2 ex_stacked 1) ex_data 0 1 = 40"
proof -
  from reshape_recovers_predictions[OF ex_shapes] obtain y where
    y: "predict 2 ex_stacked 2 ex_data = Inr y" and
    e: "\<forall>t < 2. \<forall>c < 2. \<forall>r < 2. y ! t ! c ! r = predicted (operator_block 2 ex_stacked r) ex_data c t"
    by blast
  from y ex_predict have "y = [[[1, 30], [2, 60]], [[2, 40], [4, 80]]]" by simp
  with e have "[[[1, 30], [2, 60]], [[2, 40], [4, 80]]] ! 1 ! 0 ! 1
     = predicted (operator_block 2 ex_stacked 1) ex_data 0 1"
    by (metis one_less_numeral_iff pos2 semiring_norm(76))
  then show ?thesis using ex_shapes ex_predict by (simp add: ex_blocks ex_predicted)
qed

text \<open>
  Claim C3. With at least one resample, the score of sensor \<open>c\<close> is the cosine
  similarity, over the samples and with no centering, of the sensor's series and of the
  medians over the resamples of its predictions: the sum of the products divided by the
  product of the two norms, and NaN when a norm is zero. For an even number of resamples
  the median is the mean of the two middle sorted predictions.
\<close>

theorem correlation_is_cosine_of_median:
  assumes "wf_segment n_ch n_t data" "length mappings = r_n * n_ch"
    "list_all (\<lambda>row. length row = n_ch) mappings" "0 < r_n"
  shows "compute_correlations r_n mappings n_t data =
           Inr (map (\<lambda>c. cosine_similarity (data ! c)
                            (map (pooled r_n n_ch mappings data c) [0..<n_t])) [0..<n_ch]) \<and>
         (even r_n \<longrightarrow>
            (\<forall>c t. pooled r_n n_ch mappings data c t =
               (sort (map (\<lambda>r. predicted (operator_block n_ch mappings r) data c t) [0..<r_n])
                  ! (r_n div 2 - 1) +
                sort (map (\<lambda>r. predicted (operator_block n_ch mappings r) data c t) [0..<r_n])
                  ! (r_n div 2)) / 2))"
proof -
  let ?p = "\<lambda>t c. pooled r_n n_ch mappings data c t"
  let ?d = "\<lambda>t c. data ! c ! t"
  have len_data: "length data = n_ch" and rows: "\<And>c. c < n_ch \<Longrightarrow> length (data ! c) = n_t"
    using assms(1) by (simp_all add: wf_segment_def list_all_length)
  have med: "map (map np_median)
               (map (\<lambda>t. map (\<lambda>c. map (\<lambda>r. predicted (operator_block n_ch mappings r) data c t)
                                  [0..<r_n]) [0..<n_ch]) [0..<n_t])
             = map (\<lambda>t. map (\<lambda>c. Fin (?p t c)) [0..<n_ch]) [0..<n_t]"
    using assms(4) by (simp add: comp_def np_median_middle pooled_def)
  have "compute_correlations r_n mappings n_t data =
        Inr (map2 np_divide
               (map (\<lambda>c. Fin (sum_list (map (\<lambda>t. ?d t c * ?p t c) [0..<n_t]))) [0..<n_ch])
               (map2 np_multiply
                  (map np_sqrt (map (\<lambda>c. Fin (sum_list (map (\<lambda>t. ?d t c * ?d t c) [0..<n_t]))) [0..<n_ch]))
                  (map np_sqrt (map (\<lambda>c. Fin (sum_list (map (\<lambda>t. ?p t c * ?p t c) [0..<n_t]))) [0..<n_ch]))))"
    unfolding compute_correlations_def predict_entries[OF assms(1-3)] sum.case Let_def
      med data_T_closed[OF assms(1)] len_data multiply2_closed sum_axis0_closed
    by (rule refl)
  also have "\<dots> = Inr (map (\<lambda>c. cosine_similarity (data ! c) (map (\<lambda>t. ?p t c) [0..<n_t])) [0..<n_ch])"
    unfolding map_map comp_def map2_same
    by (simp add: cosine_similarity_closed[OF rows])
  finally have main: "compute_correlations r_n mappings n_t data =
      Inr (map (\<lambda>c. cosine_similarity (data ! c) (map (pooled r_n n_ch mappings data c) [0..<n_t]))
             [0..<n_ch])" .
  have ev: "pooled r_n n_ch mappings data c t =
               (sort (map (\<lambda>r. predicted (operator_block n_ch mappings r) data c t) [0..<r_n])
                  ! (r_n div 2 - 1) +
                sort (map (\<lambda>r. predicted (operator_block n_ch mappings r) data c t) [0..<r_n])
                  ! (r_n div 2)) / 2" if "even r_n" for c t
    using that by (simp add: pooled_def middle_median_def Let_def)
  show ?thesis using main ev by blast
qed

theorem correlation_is_cosine_of_median_witness:
  "wf_segment 2 2 ex_data2 \<and> length ex_stacked2 = 2 * 2 \<and>
   list_all (\<lambda>row. length row = 2) ex_stacked2 \<and> (0::nat) < 2 \<and>
   pooled 2 2 ex_stacked2 ex_data2 0 0 = (3 + 9) / 2 \<and>
   compute_correlations 2 ex_stacked2 2 ex_data2 = Inr [Fin 1, Fin (3 / 5)] \<and>
   wf_segment 2 1 [[1], [0]] \<and> (0::nat) < 1 \<and>
   compute_correlations 1 [[1, 0], [1, 0]] 1 [[1], [0]] = Inr [Fin 1, NaN]"
proof -
  have r: "(0::nat) < 2" by simp
  have r1: "(0::nat) < 1" by simp
  have a: "compute_correlations 2 ex_stacked2 2 ex_data2 = Inr [Fin 1, Fin (3 / 5)]"
    using correlation_is_cosine_of_median[OF ex_shapes2 r]
    by (simp add: upt2 ex_pooled2 nth_Cons') (simp add: ex_data2_def ex_cosine2)
  have b: "compute_correlations 1 [[1, 0], [1, 0]] 1 [[1], [0]] = Inr [Fin 1, NaN]"
    using correlation_is_cosine_of_median[OF ex_flat_shapes r1]
    by (simp add: upt2 ex_flat_pooled ex_flat_cosine)
  show ?thesis
    using a b ex_shapes2 ex_flat_shapes(1) by (simp add: ex_pooled2)
qed
section \<open>The subsets\<close>

text \<open>
  Claim C4. For a generator whose permutations are permutations of the channel indices,
  a fraction \<open>min_channels\<close> in (0, 1] and a count \<open>C\<close> of channels that a double
  holds exactly, \<^verbatim>\<open>_get_random_subsets\<close> returns \<open>n_resample\<close> subsets, the names of
  the picks; every pick has exactly \<open>np.round(min_channels * C)\<close> entries (the product
  is the product of the doubles, and a half is rounded to the even neighbour), its
  entries are distinct indices below \<open>C\<close>, and it is a prefix of a permutation of
  \<open>0, ..., C - 1\<close>.
\<close>

theorem random_subsets_shape:
  assumes "valid_permutation (permutation ext)"
    and "0 < min_channels self" and "min_channels self \<le> 1"
    and "length (ch_names e) < 2 ^ 53"
  shows "length (get_random_subsets ext self e) = n_resample self \<and>
         get_random_subsets ext self e
           = map (\<lambda>pick. map (\<lambda>p. ch_names e ! p) pick) (picks_of ext self e) \<and>
         (\<forall>pick \<in> set (picks_of ext self e).
            int (length pick)
              = np_round (binary64 (min_channels self * real (length (ch_names e)))) \<and>
            distinct pick \<and> set pick \<subseteq> {0..<length (ch_names e)} \<and>
            (\<exists>p. mset p = mset [0..<length (ch_names e)] \<and> pick = take (length pick) p))"
proof -
  let ?c = "length (ch_names e)"
  let ?ns = "n_samples_of self e"
  have ns: "?ns = np_round (binary64 (min_channels self * real ?c))"
    by (simp only: n_samples_of_def binary64_of_nat[OF assms(4)])
  have b: "0 \<le> ?ns \<and> ?ns \<le> int ?c"
    unfolding ns
  proof (rule n_samples_bounds)
    show "0 \<le> min_channels self * real ?c" using assms(2) by simp
    have "min_channels self * real ?c \<le> 1 * real ?c"
      using assms(3) by (intro mult_right_mono) simp_all
    then show "min_channels self * real ?c \<le> real ?c" by simp
    show "?c < 2 ^ 53" by (rule assms(4))
  qed
  have each: "int (length pick) = ?ns \<and> distinct pick \<and> set pick \<subseteq> {0..<?c} \<and>
              (\<exists>p. mset p = mset [0..<?c] \<and> pick = take (length pick) p)"
    if "pick \<in> set (picks_of ext self e)" for pick
  proof -
    from that obtain g' where
      p: "pick = py_slice_to (fst (permutation ext g' ?c)) ?ns"
      unfolding picks_of_def by (blast dest: draw_picks_elem)
    let ?p = "fst (permutation ext g' ?c)"
    have t: "pick = take (nat ?ns) ?p" using p b by (simp add: py_slice_to_take)
    have l: "length ?p = ?c" by (rule perm_facts(1)[OF assms(1)])
    have "nat ?ns \<le> ?c" using b by linarith
    then have len: "length pick = nat ?ns" using t l by simp
    have "mset ?p = mset [0..<?c]" using assms(1) by (simp add: valid_permutation_def)
    moreover have "pick = take (length pick) ?p" using t len by simp
    ultimately have "\<exists>p. mset p = mset [0..<?c] \<and> pick = take (length pick) p" by blast
    then show ?thesis
      using len b picks_in_range[OF assms(1) that] by simp
  qed
  have "length (get_random_subsets ext self e) = n_resample self"
    by (simp add: get_random_subsets_def picks_of_def draw_picks_length)
  then show ?thesis
    using each unfolding ns by (simp add: get_random_subsets_def)
qed

theorem random_subsets_shape_witness:
  "valid_permutation (permutation ex_ext) \<and>
   0 < min_channels ex_cfg3 \<and> min_channels ex_cfg3 \<le> 1 \<and>
   length (ch_names ex_epochs4) < 2 ^ 53 \<and>
   length (get_random_subsets ex_ext ex_cfg3 ex_epochs4) = n_resample ex_cfg3 \<and>
   get_random_subsets ex_ext ex_cfg3 ex_epochs4
     = [[''A'', ''B''], [''B'', ''C''], [''C'', ''D'']] \<and>
   picks_of ex_ext ex_cfg3 ex_epochs4 = [[0, 1], [1, 2], [2, 3]] \<and>
   min_channels ex_cfg3 * real (length (ch_names ex_epochs4)) = 3 / 2 \<and>
   np_round (binary64 (min_channels ex_cfg3 * real (length (ch_names ex_epochs4)))) = 2 \<and>
   distinct [1::nat, 2] \<and> set [1::nat, 2] \<subseteq> {0..<length (ch_names ex_epochs4)} \<and>
   0 < min_channels ex_twentieth \<and> min_channels ex_twentieth \<le> 1 \<and>
   length (ch_names ex_epochs10) < 2 ^ 53 \<and>
   picks_of ex_ext ex_twentieth ex_epochs10 = [[], []] \<and>
   get_random_subsets ex_ext ex_twentieth ex_epochs10 = [[], []] \<and>
   1 / 2 < min_channels ex_twentieth * real (length (ch_names ex_epochs10)) \<and>
   np_round (binary64 (min_channels ex_twentieth * real (length (ch_names ex_epochs10)))) = 0"
proof -
  have h: "0 < min_channels ex_cfg3" "min_channels ex_cfg3 \<le> 1"
    "length (ch_names ex_epochs4) < 2 ^ 53"
    by (simp_all add: ex_cfg3_simps ex_names4)
  note t = random_subsets_shape[OF ex_ext_valid h]
  have p: "picks_of ex_ext ex_cfg3 ex_epochs4 = [[0, 1], [1, 2], [2, 3]]"
    by (simp add: ex_picks4 eval_nat_numeral)
  have "[1::nat, 2] \<in> set (picks_of ex_ext ex_cfg3 ex_epochs4)"
    by (simp add: p)
  with t have
    "int (length [1::nat, 2])
       = np_round (binary64 (min_channels ex_cfg3 * real (length (ch_names ex_epochs4)))) \<and>
     distinct [1::nat, 2] \<and> set [1::nat, 2] \<subseteq> {0..<length (ch_names ex_epochs4)}"
    by blast
  then have four:
    "np_round (binary64 (min_channels ex_cfg3 * real (length (ch_names ex_epochs4)))) = 2"
    "distinct [1::nat, 2]" "set [1::nat, 2] \<subseteq> {0..<length (ch_names ex_epochs4)}"
    by simp_all
  from t have len: "length (get_random_subsets ex_ext ex_cfg3 ex_epochs4) = n_resample ex_cfg3"
    by (rule conjunct1)
  have prod4: "min_channels ex_cfg3 * real (length (ch_names ex_epochs4)) = 3 / 2"
    by (simp add: ex_cfg3_simps ex_names4)
  have k: "0 < min_channels ex_twentieth" "min_channels ex_twentieth \<le> 1"
    "length (ch_names ex_epochs10) < 2 ^ 53"
    by (simp_all add: ex_twentieth_simps ex_names10)
  note u = random_subsets_shape[OF ex_ext_valid k]
  have "[] \<in> set (picks_of ex_ext ex_twentieth ex_epochs10)"
    by (simp add: ex_picks10)
  with u have
    "int (length ([] :: nat list))
       = np_round (binary64 (min_channels ex_twentieth * real (length (ch_names ex_epochs10))))"
    by blast
  then have ten:
    "np_round (binary64 (min_channels ex_twentieth * real (length (ch_names ex_epochs10)))) = 0"
    by simp
  have prod10: "1 / 2 < min_channels ex_twentieth * real (length (ch_names ex_epochs10))"
    by (simp add: ex_twentieth_simps ex_names10)
  show ?thesis
    using h k ex_ext_valid ex_subsets4 p four len prod4 ex_picks10 ex_subsets10 ten prod10
    by blast
qed
section \<open>The stacked operator\<close>

text \<open>
  Claim C5. The matrix that \<^verbatim>\<open>_get_mappings\<close> returns for \<open>R\<close> subsets over \<open>C\<close>
  sensors has \<open>R * C\<close> rows of \<open>C\<close> columns, and in block \<open>r\<close> (rows \<open>r * C\<close> to
  \<open>r * C + C - 1\<close>) every column of a sensor that is not in subset \<open>r\<close> is zero: a
  column whose sensor's name is not in the subset, and more generally a column whose
  index is not among the indices recovered from the subset.
\<close>

theorem mappings_shape_and_zero_columns:
  assumes "get_mappings ext cht ch_subsets inst = Inr m"
  shows "length m = length ch_subsets * length (ch_names inst) \<and>
         list_all (\<lambda>row. length row = length (ch_names inst)) m \<and>
         (\<forall>r < length ch_subsets. \<forall>i < length (ch_names inst). \<forall>j < length (ch_names inst).
            ch_names inst ! j \<notin> set (ch_subsets ! r) \<longrightarrow>
              m ! (r * length (ch_names inst) + i) ! j = 0) \<and>
         (\<forall>r < length ch_subsets.
            \<exists>pick_from. pick_from_of (ch_names inst) (ch_subsets ! r) = Inr pick_from \<and>
              (\<forall>i < length (ch_names inst). \<forall>j < length (ch_names inst).
                 j \<notin> set pick_from \<longrightarrow> m ! (r * length (ch_names inst) + i) ! j = 0))"
proof -
  let ?n = "length (ch_names inst)"
  from assms obtain ms where
    tr: "traverse (build_mapping ext cht inst) ch_subsets = Inr ms" and m: "m = concat ms"
    by (auto simp: get_mappings_def split: sum.splits if_splits)
  have len_ms: "length ms = length ch_subsets" by (rule traverse_length[OF tr])
  have blk: "build_mapping ext cht inst (ch_subsets ! r) = Inr (ms ! r)" if "r < length ch_subsets" for r
    by (rule traverse_nth[OF tr that])
  have blocks: "list_all (\<lambda>b. length b = ?n) ms"
    by (rule traverse_list_all[OF tr]) (use build_mapping_Inr in blast)
  have rows_blk: "list_all (\<lambda>row. length row = ?n) b" if "b \<in> set ms" for b
  proof -
    from that obtain r where r: "r < length ch_subsets" "b = ms ! r"
      using len_ms by (auto simp: in_set_conv_nth)
    from build_mapping_Inr[OF blk[OF r(1)]] show ?thesis
      unfolding r(2) by (auto simp: list_all_length)
  qed
  have len: "length m = length ch_subsets * ?n"
    unfolding m using length_concat_uniform[OF blocks] len_ms by simp
  have rows: "list_all (\<lambda>row. length row = ?n) m"
    unfolding m using rows_blk by (auto simp: list_all_iff)
  have at: "m ! (r * ?n + i) = ms ! r ! i" if "r < length ch_subsets" "i < ?n" for r i
    unfolding m using nth_concat_uniform[OF blocks, of r i] that len_ms
    by (simp add: ac_simps)
  have pf: "\<exists>pick_from. pick_from_of (ch_names inst) (ch_subsets ! r) = Inr pick_from \<and>
              (\<forall>i < ?n. \<forall>j < ?n. j \<notin> set pick_from \<longrightarrow> m ! (r * ?n + i) ! j = 0)"
    if "r < length ch_subsets" for r
    using build_mapping_Inr[OF blk[OF that]] at[OF that] by auto
  have nm: "m ! (r * ?n + i) ! j = 0"
    if "r < length ch_subsets" "i < ?n" "j < ?n" "ch_names inst ! j \<notin> set (ch_subsets ! r)" for r i j
  proof -
    from pf[OF that(1)] obtain pick_from where
      p: "pick_from_of (ch_names inst) (ch_subsets ! r) = Inr pick_from" and
      z: "\<forall>i < ?n. \<forall>j < ?n. j \<notin> set pick_from \<longrightarrow> m ! (r * ?n + i) ! j = 0"
      by blast
    have "j \<notin> set pick_from" using pick_from_of_Inr[OF p, of j] that(4) by blast
    with z that(2,3) show ?thesis by blast
  qed
  show ?thesis using len rows nm pf by blast
qed

theorem mappings_shape_and_zero_columns_witness:
  "get_mappings ex_ext (Some ''eeg'') [[''A''], [''B'']] ex_epochs
     = Inr [[1, 0], [1, 0], [0, 1], [0, 1]] \<and>
   length [[1, 0], [1, 0], [0, 1], [0, 1 :: real]]
     = length [[''A''], [''B'']] * length (ch_names ex_epochs) \<and>
   ch_names ex_epochs ! 0 \<notin> set ([[''A''], [''B'']] ! 1) \<and>
   [[1, 0], [1, 0], [0, 1], [0, 1 :: real]] ! (1 * length (ch_names ex_epochs) + 1) ! 0 = 0"
proof -
  note t = mappings_shape_and_zero_columns[OF ex_mappings2]
  have n: "ch_names ex_epochs ! 0 \<notin> set ([[''A''], [''B'']] ! 1)"
    by (simp add: ex_epochs_simps)
  have "[[1, 0], [1, 0], [0, 1], [0, 1 :: real]] ! (1 * length (ch_names ex_epochs) + 1) ! 0 = 0"
    by (rule t[THEN conjunct2, THEN conjunct2, THEN conjunct1, rule_format, of 1 1 0])
       (simp_all add: ex_epochs_simps)
  moreover from t have "length [[1, 0], [1, 0], [0, 1], [0, 1 :: real]]
     = length [[''A''], [''B'']] * length (ch_names ex_epochs)"
    by (rule conjunct1)
  ultimately show ?thesis using ex_mappings2 n by blast
qed

section \<open>The classifier\<close>

text \<open>
  Claim C6. After a fit on a recording of \<open>N\<close> segments the correlation matrix has
  \<open>N\<close> rows, and the list of bad channels is the list of the names of the sensors
  \<open>j\<close> whose tally (the number of segments with a score below \<open>min_corr\<close>) is
  strictly greater than \<open>unbroken_time * N\<close>, the product of the doubles, in the order
  of the channels. When no sensor exceeds the threshold the list is empty, and with
  \<open>unbroken_time = 1\<close> no sensor is flagged (a tally is at most \<open>N\<close>, which a double
  holds exactly), so none with a bad rate below 100%.
\<close>

theorem fit_flags_by_tally:
  assumes "fit ext self e = Inr st"
  shows "length (self_corr st) = length (segments e) \<and>
         self_bad_chs st =
           map (\<lambda>j. ch_names e ! j)
             (filter (flagged (self_corr st) (min_corr self) (unbroken_time self) (length (segments e)))
                [0..<length (ch_names e)]) \<and>
         ((\<forall>j < length (ch_names e).
              \<not> flagged (self_corr st) (min_corr self) (unbroken_time self) (length (segments e)) j)
            \<longrightarrow> self_bad_chs st = []) \<and>
         (unbroken_time self = 1 \<and> length (segments e) < 2 ^ 53 \<longrightarrow> self_bad_chs st = [])"
proof -
  let ?N = "length (segments e)" and ?names = "ch_names e"
  let ?fl = "flagged (self_corr st) (min_corr self) (unbroken_time self) ?N"
  from fit_corr_shape[OF assms] have
    len: "length (self_corr st) = ?N" and
    shape: "list_all (\<lambda>row. length row = length ?names) (self_corr st)"
    by simp_all
  have chs: "self_bad_chs st = map (\<lambda>j. ?names ! j) (filter ?fl [0..<length ?names])"
    by (simp add: fit_bad_chs(1)[OF assms] bad_chs_of_eq bad_idx_of_eq[OF shape])
  have none: "filter ?fl [0..<length ?names] = []" if "\<forall>j < length ?names. \<not> ?fl j"
    using that by (auto simp: filter_empty_conv)
  have one: "\<not> ?fl j" if "unbroken_time self = 1" "?N < 2 ^ 53" for j
  proof -
    have "binary64 (unbroken_time self * binary64 (real ?N)) = real ?N"
      by (simp add: that(1) binary64_of_nat[OF that(2)])
    then show ?thesis
      using tally_le_length[of "self_corr st" "min_corr self" j] len
      by (simp add: flagged_def)
  qed
  show ?thesis
    using len chs none one by (simp add: filter_empty_conv)
qed

theorem fit_flags_by_tally_witness:
  "fit ex_ext ex_seq ex_epochs =
     Inr \<lparr>self_ch_type = Some ''eeg'', self_ch_subsets = [[''A'']],
          self_mappings = [[1, 0], [1, 0]],
          self_corr = [[Fin 1, Fin 1], [Fin 1, Fin (- 1)]],
          self_bad_log = [[0, 0], [0, 1]],
          self_bad_chs = [''B'']\<rparr> \<and>
   [''B''] =
     map (\<lambda>j. ch_names ex_epochs ! j)
       (filter (flagged [[Fin 1, Fin 1], [Fin 1, Fin (- 1)]] (min_corr ex_seq)
                  (unbroken_time ex_seq) (length (segments ex_epochs)))
          [0..<length (ch_names ex_epochs)]) \<and>
   fit ex_ext ex_third ex_epochs3 =
     Inr \<lparr>self_ch_type = Some ''eeg'', self_ch_subsets = [[''A'']],
          self_mappings = [[1, 0], [1, 0]],
          self_corr = [[Fin 1, Fin 1], [Fin 1, Fin 1], [Fin 1, Fin (- 1)]],
          self_bad_log = [[0, 0], [0, 0], [0, 1]],
          self_bad_chs = []\<rparr> \<and>
   tally [[Fin 1, Fin 1], [Fin 1, Fin 1], [Fin 1, Fin (- 1)]] (min_corr ex_third) 0 = 0 \<and>
   tally [[Fin 1, Fin 1], [Fin 1, Fin 1], [Fin 1, Fin (- 1)]] (min_corr ex_third) 1 = 1 \<and>
   unbroken_time ex_third * real (length (segments ex_epochs3)) < 1 \<and>
   binary64 (unbroken_time ex_third * binary64 (real (length (segments ex_epochs3)))) = 1 \<and>
   filter (flagged [[Fin 1, Fin 1], [Fin 1, Fin 1], [Fin 1, Fin (- 1)]] (min_corr ex_third)
             (unbroken_time ex_third) (length (segments ex_epochs3)))
     [0..<length (ch_names ex_epochs3)] = []"
proof -
  have a: "[''B''] =
     map (\<lambda>j. ch_names ex_epochs ! j)
       (filter (flagged [[Fin 1, Fin 1], [Fin 1, Fin (- 1)]] (min_corr ex_seq)
                  (unbroken_time ex_seq) (length (segments ex_epochs)))
          [0..<length (ch_names ex_epochs)])"
    using fit_flags_by_tally[OF ex_fit_seq] by simp
  have b: "filter (flagged [[Fin 1, Fin 1], [Fin 1, Fin 1], [Fin 1, Fin (- 1)]] (min_corr ex_third)
             (unbroken_time ex_third) (length (segments ex_epochs3)))
     [0..<length (ch_names ex_epochs3)] = []"
    using fit_flags_by_tally[OF ex_fit_third] by simp
  have c: "tally [[Fin 1, Fin 1], [Fin 1, Fin 1], [Fin 1, Fin (- 1)]] (min_corr ex_third) 0 = 0"
    "tally [[Fin 1, Fin 1], [Fin 1, Fin 1], [Fin 1, Fin (- 1)]] (min_corr ex_third) 1 = 1"
    by (simp_all add: tally_def below_def ex_third_simps)
  have d: "unbroken_time ex_third * real (length (segments ex_epochs3)) < 1"
    "binary64 (unbroken_time ex_third * binary64 (real (length (segments ex_epochs3)))) = 1"
    by (simp_all add: ex_third_simps ex_epochs3_simps binary64_numeral binary64_third_times_three)
  show ?thesis
    using a b c d ex_fit_seq ex_fit_third by blast
qed
text \<open>
  Claim C7. For a fixed correlation matrix and a fixed number of segments, lowering
  \<open>min_corr\<close> never makes the list of bad channels longer, and raising
  \<open>unbroken_time\<close> never makes it longer either.
\<close>

theorem bad_count_monotone:
  assumes "list_all (\<lambda>row. length row = length names) corr"
  shows "(m \<le> m' \<longrightarrow>
            length (bad_chs_of names corr m u k) \<le> length (bad_chs_of names corr m' u k)) \<and>
         (u \<le> u' \<longrightarrow>
            length (bad_chs_of names corr m u' k) \<le> length (bad_chs_of names corr m u k))"
proof -
  have len: "length (bad_chs_of names corr a b k) = length (filter (flagged corr a b k) [0..<length names])"
    for a b
    by (simp add: bad_chs_of_eq bad_idx_of_eq[OF assms])
  have 1: "flagged corr m' u k j" if "m \<le> m'" "flagged corr m u k j" for j
    using that tally_mono[OF that(1), of corr j] by (simp add: flagged_def)
  have 2: "flagged corr m u k j" if "u \<le> u'" "flagged corr m u' k j" for j
  proof -
    have "0 \<le> binary64 (real k)" by (rule binary64_nonneg) simp
    then have "u * binary64 (real k) \<le> u' * binary64 (real k)"
      using that(1) by (rule mult_right_mono[rotated])
    then have "binary64 (u * binary64 (real k)) \<le> binary64 (u' * binary64 (real k))"
      by (rule binary64_mono)
    then show ?thesis using that(2) by (simp add: flagged_def)
  qed
  show ?thesis
    unfolding len using 1 2 by (auto intro!: length_filter_mono)
qed

theorem bad_count_monotone_witness:
  "list_all (\<lambda>row. length row = length [''A'', ''B'']) [[Fin 1, Fin 1], [Fin 1, Fin (- 1)]] \<and>
   (0::real) \<le> 3 / 4 \<and> (2 / 5 :: real) \<le> 1 \<and>
   length (bad_chs_of [''A'', ''B''] [[Fin 1, Fin 1], [Fin 1, Fin (- 1)]] 0 (2 / 5) 2)
     \<le> length (bad_chs_of [''A'', ''B''] [[Fin 1, Fin 1], [Fin 1, Fin (- 1)]] (3 / 4) (2 / 5) 2) \<and>
   length (bad_chs_of [''A'', ''B''] [[Fin 1, Fin 1], [Fin 1, Fin (- 1)]] (3 / 4) 1 2)
     \<le> length (bad_chs_of [''A'', ''B''] [[Fin 1, Fin 1], [Fin 1, Fin (- 1)]] (3 / 4) (2 / 5) 2)"
proof -
  have h: "list_all (\<lambda>row. length row = length [''A'', ''B'']) [[Fin 1, Fin 1], [Fin 1, Fin (- 1)]]"
    by simp
  show ?thesis
    using h bad_count_monotone[OF h, where m = 0 and m' = "3 / 4" and u = "2 / 5" and k = 2
        and u' = 1]
      bad_count_monotone[OF h, where m = "3 / 4" and m' = "3 / 4" and u = "2 / 5" and k = 2
        and u' = 1]
    by simp
qed

section \<open>Rejected recordings\<close>

text \<open>
  Claim C8. A recording (one with a channel, every channel of a type that
  \<^verbatim>\<open>channel_indices_by_type\<close> lists) in which both supported families are present, or
  in which neither is present, is rejected by \<^verbatim>\<open>_get_channel_type\<close>: \<^verbatim>\<open>fit\<close>
  returns that error, or the error of \<^verbatim>\<open>_check_data\<close>, and neither depends on the
  sampler or on the kernels, which are not reached.
\<close>

theorem fit_rejects_channel_mix:
  assumes "listed_channels (pick_types_keys ext) e"
    and "(contains_ch_type e ''meg'' \<and> contains_ch_type e ''eeg'') \<or>
         (\<not> contains_ch_type e ''meg'' \<and> \<not> contains_ch_type e ''eeg'')"
  shows "\<exists>err. get_channel_type (pick_types_keys ext) e = Inl err \<and>
               fit ext self e = Inl (if check_data ext e then err else CheckDataError)"
proof -
  from assms have "\<exists>err. get_channel_type (pick_types_keys ext) e = Inl err"
    using get_channel_type_mixed get_channel_type_listed by blast
  then show ?thesis using fit_validation_error by blast
qed

theorem fit_rejects_channel_mix_witness:
  "listed_channels (pick_types_keys ex_ext) ex_mixed \<and>
   contains_ch_type ex_mixed ''meg'' \<and> contains_ch_type ex_mixed ''eeg'' \<and>
   get_channel_type (pick_types_keys ex_ext) ex_mixed = Inl MixedChannelTypes \<and>
   fit ex_ext ex_seq ex_mixed = Inl MixedChannelTypes \<and>
   listed_channels (pick_types_keys ex_ext) ex_eog \<and>
   \<not> contains_ch_type ex_eog ''meg'' \<and> \<not> contains_ch_type ex_eog ''eeg'' \<and>
   get_channel_type (pick_types_keys ex_ext) ex_eog = Inl (InvalidChannelTypes [''eog'']) \<and>
   fit ex_ext ex_seq ex_eog = Inl (InvalidChannelTypes [''eog''])"
proof -
  have l: "listed_channels (pick_types_keys ex_ext) ex_mixed"
    "listed_channels (pick_types_keys ex_ext) ex_eog"
    by (simp_all add: listed_channels_def ex_ext_def ex_mixed_def ex_eog_def)
  have h: "contains_ch_type ex_mixed ''meg''" "contains_ch_type ex_mixed ''eeg''"
    by (simp_all add: contains_ch_type_def ex_mixed_def)
  from fit_rejects_channel_mix[OF l(1), of ex_seq] h obtain err where
    "get_channel_type (pick_types_keys ex_ext) ex_mixed = Inl err"
    "fit ex_ext ex_seq ex_mixed = Inl (if check_data ex_ext ex_mixed then err else CheckDataError)"
    by blast
  with ex_mixed_fit have m: "get_channel_type (pick_types_keys ex_ext) ex_mixed = Inl MixedChannelTypes"
    by (simp add: ex_ext_def)
  have g: "\<not> contains_ch_type ex_eog ''meg''" "\<not> contains_ch_type ex_eog ''eeg''"
    by (simp_all add: contains_ch_type_def ex_eog_def)
  from fit_rejects_channel_mix[OF l(2), of ex_seq] g obtain err' where
    "get_channel_type (pick_types_keys ex_ext) ex_eog = Inl err'"
    "fit ex_ext ex_seq ex_eog = Inl (if check_data ex_ext ex_eog then err' else CheckDataError)"
    by blast
  with ex_eog_fit have e: "get_channel_type (pick_types_keys ex_ext) ex_eog = Inl (InvalidChannelTypes [''eog''])"
    by (simp add: ex_ext_def)
  from l h m g e ex_mixed_fit ex_eog_fit show ?thesis by simp
qed
text \<open>
  Claim C9. A NaN in the correlation matrix that a fit computed is not below
  \<open>min_corr\<close>: its entry of \<open>bad_log\<close> stays zero, the column sum of the sensor
  counts only the scores that are not NaN and are below \<open>min_corr\<close>, and a sensor all
  of whose scores are NaN is not flagged (for a threshold that is not negative). The
  classifier has no error to raise: the fit that produced the NaN returns.
\<close>

theorem nan_never_counts:
  assumes "fit ext self e = Inr st" and "j < length (ch_names e)"
  shows "(\<forall>i < length (segments e). self_corr st ! i ! j = NaN \<longrightarrow>
            \<not> np_less (self_corr st ! i ! j) (Fin (min_corr self)) \<and> self_bad_log st ! i ! j = 0) \<and>
         sum_axis0_real (length (ch_names e)) (self_bad_log st) ! j =
           real (length (filter (\<lambda>row. row ! j \<noteq> NaN \<and> np_less (row ! j) (Fin (min_corr self)))
                          (self_corr st))) \<and>
         (list_all (\<lambda>row. row ! j = NaN) (self_corr st) \<and> 0 \<le> unbroken_time self \<longrightarrow>
            j \<notin> set (bad_idx_of (length (ch_names e)) (self_corr st) (min_corr self)
                        (unbroken_time self) (length (segments e))))"
proof -
  let ?corr = "self_corr st" and ?m = "min_corr self" and ?n = "length (ch_names e)"
  from fit_corr_shape[OF assms(1)] have
    len: "length ?corr = length (segments e)" and
    shape: "list_all (\<lambda>row. length row = ?n) ?corr"
    by simp_all
  have log: "self_bad_log st = bad_log_of ?corr ?m" by (rule fit_bad_chs(2)[OF assms(1)])
  have entry: "self_bad_log st ! i ! j = 0"
    if "i < length (segments e)" "?corr ! i ! j = NaN" for i
  proof -
    from that(1) len have i: "i < length ?corr" by simp
    with shape assms(2) have "j < length (?corr ! i)" by (simp add: list_all_length)
    with i that(2) show ?thesis by (simp add: log bad_log_of_eq)
  qed
  have count: "sum_axis0_real ?n (self_bad_log st) ! j =
      real (length (filter (\<lambda>row. row ! j \<noteq> NaN \<and> np_less (row ! j) (Fin ?m)) ?corr))"
    unfolding log column_sum_tally[OF shape assms(2)] tally_def
    by (simp only: filter_not_nan[symmetric])
  have allnan: "j \<notin> set (bad_idx_of ?n ?corr ?m (unbroken_time self) (length (segments e)))"
    if "list_all (\<lambda>row. row ! j = NaN) ?corr" "0 \<le> unbroken_time self"
  proof -
    from that(1) have "filter (\<lambda>row. below (row ! j) ?m) ?corr = []"
      by (auto simp: filter_empty_conv list_all_iff below_def)
    then have "tally ?corr ?m j = 0" by (simp add: tally_def)
    moreover have "0 \<le> binary64 (unbroken_time self * binary64 (real (length (segments e))))"
    proof (rule binary64_nonneg, rule mult_nonneg_nonneg)
      show "0 \<le> unbroken_time self" by (rule that(2))
      show "0 \<le> binary64 (real (length (segments e)))" by (rule binary64_nonneg) simp
    qed
    ultimately have "\<not> flagged ?corr ?m (unbroken_time self) (length (segments e)) j"
      by (simp add: flagged_def not_less)
    then show ?thesis by (simp add: bad_idx_of_eq[OF shape])
  qed
  show ?thesis using entry count allnan by simp
qed

theorem nan_never_counts_witness:
  "fit ex_ext ex_seq ex_flat =
     Inr \<lparr>self_ch_type = Some ''eeg'', self_ch_subsets = [[''A'']],
          self_mappings = [[1, 0], [1, 0]],
          self_corr = [[Fin 1, NaN]],
          self_bad_log = [[0, 0]],
          self_bad_chs = []\<rparr> \<and>
   (1::nat) < length (ch_names ex_flat) \<and>
   [[Fin 1, NaN]] ! 0 ! 1 = NaN \<and>
   list_all (\<lambda>row. row ! 1 = NaN) [[Fin 1, NaN]] \<and> 0 \<le> unbroken_time ex_seq \<and>
   1 \<notin> set (bad_idx_of (length (ch_names ex_flat)) [[Fin 1, NaN]] (min_corr ex_seq)
               (unbroken_time ex_seq) (length (segments ex_flat)))"
proof -
  have j: "(1::nat) < length (ch_names ex_flat)" by (simp add: ex_flat_simps)
  show ?thesis
    using nan_never_counts[OF ex_fit_flat j] ex_fit_flat j
    by (simp add: ex_seq_simps)
qed

section \<open>From names back to indices\<close>

text \<open>
  Claim C10. When the channel names are pairwise distinct, the index array
  \<open>pick_from\<close> that \<^verbatim>\<open>_get_mappings\<close> recovers with \<^verbatim>\<open>ch_names.index\<close> from each
  subset of names is found, and it is the pick that the sampler drew, entry for entry
  and in the same order.
\<close>

theorem subset_names_round_trip:
  assumes "valid_permutation (permutation ext)" and "distinct (ch_names e)"
  shows "map (pick_from_of (ch_names e)) (get_random_subsets ext self e)
         = map Inr (picks_of ext self e)"
proof -
  have "pick_from_of (ch_names e) (map (\<lambda>p. ch_names e ! p) pick) = Inr pick"
    if "pick \<in> set (picks_of ext self e)" for pick
    using picks_in_range[OF assms(1) that] assms(2) by (intro pick_from_of_names) simp_all
  then show ?thesis
    by (simp add: get_random_subsets_def)
qed

theorem subset_names_round_trip_witness:
  "valid_permutation (permutation ex_ext) \<and> distinct (ch_names ex_epochs4) \<and>
   map (pick_from_of (ch_names ex_epochs4)) [[''A'', ''B''], [''B'', ''C''], [''C'', ''D'']]
     = map Inr [[0, 1], [1, 2], [2, 3]]"
proof -
  have d: "distinct (ch_names ex_epochs4)" by (simp add: ex_names4)
  have p: "picks_of ex_ext ex_cfg3 ex_epochs4 = [[0, 1], [1, 2], [2, 3]]"
    by (simp add: ex_picks4 eval_nat_numeral)
  from subset_names_round_trip[OF ex_ext_valid d, of ex_cfg3]
  have "map (pick_from_of (ch_names ex_epochs4)) [[''A'', ''B''], [''B'', ''C''], [''C'', ''D'']]
     = map Inr [[0, 1], [1, 2], [2, 3]]"
    by (simp only: ex_subsets4 p)
  then show ?thesis using ex_ext_valid d by blast
qed

end
